theory Spec2Isabelle
  imports
    Main
    "HOL-Library.AList"
    "HOL-Library.Char_ord"
    "HOL-Library.List_Lexorder"
    "HOL-Library.Product_Lexorder"
begin

section \<open>Lead calling backend: the scheduling core\<close>

text \<open>
  The development embeds the Mongoose models \<^verbatim>\<open>Lead\<close> and \<^verbatim>\<open>CallLog\<close>, the
  \<^verbatim>\<open>CallQueue\<close> service, the Twilio status handler and the operator's claim route.
  Status and priority labels stay strings, as in the JavaScript: several behaviours
  depend on the exact spelling of a label. A date is its number of milliseconds since
  the epoch; the clock reading \<open>now\<close> is an argument of every operation that reads it.
  An asynchronous function is given as the function of its whole run. The dispatcher's
  tick is given in addition in the parts between its \<^verbatim>\<open>await\<close>s, because the timer
  does not wait for a tick to finish and the parts of several ticks can alternate.
\<close>

type_synonym objectId = nat
type_synonym date = int

datatype error =
    ValidationError string
  | DocumentNotFoundError
  | DuplicateKeyError

subsection \<open>models/Lead.js\<close>

record historyEntry =
  attempt :: int
  timestamp :: date
  h_status :: string
  h_duration :: int
  h_notes :: string

text \<open>
  The paths of \<^verbatim>\<open>leadSchema\<close> that the scheduling code reads or writes. The paths
  \<^verbatim>\<open>name\<close>, \<^verbatim>\<open>email\<close>, \<^verbatim>\<open>notes\<close>, \<^verbatim>\<open>tags\<close> and \<^verbatim>\<open>source\<close> are written by none of
  the operations below and are left out. An absent \<^verbatim>\<open>Date\<close> or reference is \<open>None\<close>.
\<close>

record lead =
  lead_id :: objectId
  phone :: string
  status :: string
  priority :: string
  callAttempts :: int
  lastCallAttempt :: "date option"
  nextCallTime :: "date option"
  assignedTo :: "objectId option"
  callHistory :: "historyEntry list"
  isActive :: bool
  createdAt :: date
  updatedAt :: date

definition leadStatusEnum :: "string list" where
  "leadStatusEnum =
     [''pending'', ''calling'', ''answered'', ''no_answer'', ''busy'', ''failed'',
      ''completed'', ''transferred'']"

definition priorityEnum :: "string list" where
  "priorityEnum = [''low'', ''medium'', ''high'', ''urgent'']"

text \<open>The character class \<^verbatim>\<open>[\d\s\-\(\)]\<close> of the phone pattern, on ASCII.\<close>

definition phoneChar :: "char \<Rightarrow> bool" where
  "phoneChar c \<longleftrightarrow>
     c \<in> set (''0123456789-() '' @ [CHR 0x09, CHR 0x0A, CHR 0x0B, CHR 0x0C, CHR 0x0D])"

fun phoneMatch :: "string \<Rightarrow> bool" where
  "phoneMatch [] = False"
| "phoneMatch (c # cs) =
     (if c = CHR ''+'' then cs \<noteq> [] \<and> list_all phoneChar cs
      else list_all phoneChar (c # cs))"

text \<open>
  Schema validation as \<^verbatim>\<open>save()\<close> runs it; the model reports one failing path.
\<close>

definition validateLead :: "lead \<Rightarrow> string option" where
  "validateLead l =
     (if phone l = [] then Some ''Phone number is required''
      else if \<not> phoneMatch (phone l) then Some ''Please enter a valid phone number''
      else if status l \<notin> set leadStatusEnum then Some ''status: not a valid enum value''
      else if priority l \<notin> set priorityEnum then Some ''priority: not a valid enum value''
      else if 5 < callAttempts l then Some ''Maximum call attempts exceeded''
      else None)"

definition findLeadById :: "objectId \<Rightarrow> lead list \<Rightarrow> lead option" where
  "findLeadById i store = find (\<lambda>l. lead_id l = i) store"

text \<open>
  \<^verbatim>\<open>lead.save()\<close>: validation first; then the stored document with the same
  \<^verbatim>\<open>_id\<close> is replaced. With \<^verbatim>\<open>timestamps: true\<close> a modified document gets
  \<^verbatim>\<open>updatedAt = now\<close>; an unmodified one is not written.
\<close>

definition saveLead :: "date \<Rightarrow> lead \<Rightarrow> lead list \<Rightarrow> error + (lead \<times> lead list)" where
  "saveLead now l store =
     (case validateLead l of
        Some msg \<Rightarrow> Inl (ValidationError msg)
      | None \<Rightarrow>
          (case findLeadById (lead_id l) store of
             None \<Rightarrow> Inl DocumentNotFoundError
           | Some old \<Rightarrow>
               if old = l then Inr (l, store)
               else
                 let l' = l\<lparr>updatedAt := now\<rparr>
                 in Inr (l', map (\<lambda>x. if lead_id x = lead_id l then l' else x) store)))"

text \<open>
  Lines 79 to 103 of \<^verbatim>\<open>updateCallStatus\<close>: the changes to the document in memory.
\<close>

definition updateCallStatus_doc :: "date \<Rightarrow> string \<Rightarrow> int \<Rightarrow> string \<Rightarrow> lead \<Rightarrow> lead" where
  "updateCallStatus_doc now st duration notes l =
     (let l1 = l\<lparr>status := st, lastCallAttempt := Some now\<rparr>
      in
        if st = ''answered'' \<or> st = ''no_answer'' \<or> st = ''busy'' \<or> st = ''failed'' then
          let l2 = l1\<lparr>callAttempts := callAttempts l1 + 1\<rparr>;
              l3 = l2\<lparr>callHistory := callHistory l2 @
                     [\<lparr>attempt = callAttempts l2, timestamp = now, h_status = st,
                       h_duration = duration, h_notes = notes\<rparr>]\<rparr>
          in
            if st = ''no_answer'' \<and> callAttempts l3 < 3 then
              l3\<lparr>nextCallTime := Some (now + 30 * 60 * 1000)\<rparr>
            else if st = ''busy'' \<and> callAttempts l3 < 3 then
              l3\<lparr>nextCallTime := Some (now + 15 * 60 * 1000)\<rparr>
            else if callAttempts l3 \<ge> 3 then
              l3\<lparr>status := ''failed'', isActive := False\<rparr>
            else l3
        else l1)"

definition updateCallStatus ::
  "date \<Rightarrow> string \<Rightarrow> int \<Rightarrow> string \<Rightarrow> lead \<Rightarrow> lead list \<Rightarrow> error + (lead \<times> lead list)" where
  "updateCallStatus now st duration notes l store =
     saveLead now (updateCallStatus_doc now st duration notes l) store"

text \<open>
  \<^verbatim>\<open>getNextLeadToCall\<close>: the query filter, then
  \<^verbatim>\<open>sort({ priority: 1, createdAt: 1 })\<close>, ascending on the priority string (compared
  character by character) and then on the creation time; \<^verbatim>\<open>findOne\<close> takes the first
  document. Documents equal on both keys keep the order of the collection.
\<close>

definition eligible :: "date \<Rightarrow> lead \<Rightarrow> bool" where
  "eligible now l \<longleftrightarrow>
     status l = ''pending'' \<and> isActive l \<and>
     (case nextCallTime l of None \<Rightarrow> True | Some t \<Rightarrow> t \<le> now)"

definition getNextLeadToCall :: "date \<Rightarrow> lead list \<Rightarrow> lead option" where
  "getNextLeadToCall now store =
     (case sort_key (\<lambda>l. (priority l, createdAt l)) (filter (eligible now) store) of
        [] \<Rightarrow> None
      | l # _ \<Rightarrow> Some l)"

subsection \<open>models/CallLog.js\<close>

text \<open>
  The paths of \<^verbatim>\<open>callLogSchema\<close> used by the scheduling code; \<^verbatim>\<open>direction\<close>,
  \<^verbatim>\<open>transferTime\<close>, \<^verbatim>\<open>transferTo\<close>, \<^verbatim>\<open>recordingUrl\<close>, \<^verbatim>\<open>cost\<close> and \<^verbatim>\<open>metadata\<close> are
  left out. \<^verbatim>\<open>from\<close> is optional in the record because the dispatcher fills it from
  an environment variable that may be unset.
\<close>

record callLog =
  log_id :: objectId
  log_lead :: objectId
  salesperson :: "objectId option"
  twilioCallSid :: "string option"
  log_status :: string
  log_from :: "string option"
  log_to :: string
  log_duration :: int
  startTime :: date
  endTime :: "date option"
  answerTime :: "date option"
  log_notes :: "string option"
  errorCode :: "string option"
  errorMessage :: "string option"
  log_createdAt :: date
  log_updatedAt :: date

definition callStatusEnum :: "string list" where
  "callStatusEnum =
     [''initiated'', ''ringing'', ''answered'', ''completed'', ''busy'', ''no-answer'',
      ''failed'', ''canceled'']"

definition validateCallLog :: "callLog \<Rightarrow> string option" where
  "validateCallLog c =
     (if log_status c \<notin> set callStatusEnum then Some ''status: not a valid enum value''
      else if log_from c = None \<or> log_from c = Some [] then Some ''Path from is required''
      else if log_to c = [] then Some ''Path to is required''
      else if log_duration c < 0 then Some ''duration is less than minimum allowed value''
      else if (case log_notes c of None \<Rightarrow> False | Some n \<Rightarrow> 1000 < length n)
        then Some ''Notes cannot exceed 1000 characters''
      else None)"

definition findCallLogById :: "objectId \<Rightarrow> callLog list \<Rightarrow> callLog option" where
  "findCallLogById i store = find (\<lambda>c. log_id c = i) store"

definition findCallLogBySid :: "string \<Rightarrow> callLog list \<Rightarrow> callLog option" where
  "findCallLogBySid sid store = find (\<lambda>c. twilioCallSid c = Some sid) store"

text \<open>
  \<^verbatim>\<open>callLog.save()\<close>: validation, then the unique sparse index on
  \<^verbatim>\<open>twilioCallSid\<close>; a document whose \<^verbatim>\<open>_id\<close> is not stored yet is inserted.
\<close>

definition sidTaken :: "callLog \<Rightarrow> callLog list \<Rightarrow> bool" where
  "sidTaken c store \<longleftrightarrow>
     twilioCallSid c \<noteq> None \<and>
     list_ex (\<lambda>x. log_id x \<noteq> log_id c \<and> twilioCallSid x = twilioCallSid c) store"

definition saveCallLog ::
  "date \<Rightarrow> callLog \<Rightarrow> callLog list \<Rightarrow> error + (callLog \<times> callLog list)" where
  "saveCallLog now c store =
     (case validateCallLog c of
        Some msg \<Rightarrow> Inl (ValidationError msg)
      | None \<Rightarrow>
          if sidTaken c store then Inl DuplicateKeyError
          else
            (case findCallLogById (log_id c) store of
               None \<Rightarrow> Inr (c, store @ [c])
             | Some old \<Rightarrow>
                 if old = c then Inr (c, store)
                 else
                   let c' = c\<lparr>log_updatedAt := now\<rparr>
                   in Inr (c', map (\<lambda>x. if log_id x = log_id c then c' else x) store)))"

text \<open>
  The \<^verbatim>\<open>additionalData\<close> object of \<^verbatim>\<open>updateStatus\<close>: \<open>None\<close> is a key that is
  not present. Keys that are no schema path are ignored by the source and have no field
  here.
\<close>

record additionalData =
  ad_duration :: "int option"
  ad_notes :: "string option"
  ad_errorCode :: "string option"
  ad_errorMessage :: "string option"

definition noData :: additionalData where
  "noData = \<lparr>ad_duration = None, ad_notes = None, ad_errorCode = None, ad_errorMessage = None\<rparr>"

definition applyAdditionalData :: "additionalData \<Rightarrow> callLog \<Rightarrow> callLog" where
  "applyAdditionalData ad c =
     (let c1 = (case ad_duration ad of None \<Rightarrow> c | Some d \<Rightarrow> c\<lparr>log_duration := d\<rparr>);
          c2 = (case ad_notes ad of None \<Rightarrow> c1 | Some n \<Rightarrow> c1\<lparr>log_notes := Some n\<rparr>);
          c3 = (case ad_errorCode ad of None \<Rightarrow> c2 | Some e \<Rightarrow> c2\<lparr>errorCode := Some e\<rparr>)
      in (case ad_errorMessage ad of None \<Rightarrow> c3 | Some e \<Rightarrow> c3\<lparr>errorMessage := Some e\<rparr>))"

definition updateStatus_doc :: "date \<Rightarrow> string \<Rightarrow> additionalData \<Rightarrow> callLog \<Rightarrow> callLog" where
  "updateStatus_doc now st ad c =
     (let c1 = c\<lparr>log_status := st\<rparr>;
          c2 =
            (if st = ''answered'' then c1\<lparr>answerTime := Some now\<rparr>
             else if st = ''completed'' then
               (let c' = c1\<lparr>endTime := Some now\<rparr>
                in (case answerTime c' of
                      None \<Rightarrow> c'
                    | Some a \<Rightarrow> c'\<lparr>log_duration := (now - a) div 1000\<rparr>))
             else if st = ''failed'' \<or> st = ''busy'' \<or> st = ''no-answer'' then
               c1\<lparr>endTime := Some now\<rparr>
             else c1)
      in applyAdditionalData ad c2)"

definition updateStatus ::
  "date \<Rightarrow> string \<Rightarrow> additionalData \<Rightarrow> callLog \<Rightarrow> callLog list
     \<Rightarrow> error + (callLog \<times> callLog list)" where
  "updateStatus now st ad c store = saveCallLog now (updateStatus_doc now st ad c) store"

subsection \<open>The agent directory\<close>

text \<open>
  Modelled from the spec: \<^verbatim>\<open>models/User.js\<close> is not among the sources. An Agent has
  the flags \<^verbatim>\<open>available\<close> and \<^verbatim>\<open>active\<close> and the aggregate counters; the fields carry
  the names under which \<^verbatim>\<open>callQueue.js\<close> reads and writes them, and saving a user
  succeeds.
\<close>

record user =
  user_id :: objectId
  role :: string
  isAvailable :: bool
  user_isActive :: bool
  user_phone :: string
  totalCalls :: int
  successfulCalls :: int
  lastLogin :: "date option"

definition findUserById :: "objectId option \<Rightarrow> user list \<Rightarrow> user option" where
  "findUserById i store =
     (case i of None \<Rightarrow> None | Some k \<Rightarrow> find (\<lambda>u. user_id u = k) store)"

definition saveUser :: "user \<Rightarrow> user list \<Rightarrow> user list" where
  "saveUser u store = map (\<lambda>x. if user_id x = user_id u then u else x) store"

subsection \<open>services/twilioService.js\<close>

text \<open>
  The Twilio client is the boundary of the system. \<open>Simulated sid\<close> is the module
  without credentials (\<^verbatim>\<open>client\<close> is null), \<open>sid\<close> the identifier it makes up;
  \<open>Live r\<close> is a client whose \<^verbatim>\<open>calls.create\<close> throws the message \<open>e\<close>
  (\<open>r = Inl e\<close>) or returns a call with identifier \<open>sid\<close> (\<open>r = Inr sid\<close>).
  The result of \<^verbatim>\<open>initiateCall\<close> is \<open>Inr sid\<close> for
  \<^verbatim>\<open>{ success: true, callSid }\<close> and \<open>Inl e\<close> for \<^verbatim>\<open>{ success: false, error }\<close>.
\<close>

datatype gateway = Simulated string | Live "string + string"

definition initiateCall :: "gateway \<Rightarrow> string \<Rightarrow> string \<Rightarrow> string + string" where
  "initiateCall gw leadPhone salespersonPhone =
     (if leadPhone = [] \<or> salespersonPhone = [] then Inl ''Phone numbers are required''
      else (case gw of Simulated sid \<Rightarrow> Inr sid | Live r \<Rightarrow> r))"

subsection \<open>The state of the process\<close>

text \<open>
  A call of \<^verbatim>\<open>processQueue\<close> that is suspended at one of its two queries: at
  \<^verbatim>\<open>await Lead.getNextLeadToCall()\<close>, or at \<^verbatim>\<open>await this.findAvailableSalesperson()\<close>
  holding the lead it has read.
\<close>

datatype tickState = AwaitLead | AwaitAgent lead

text \<open>
  The three collections, the interval timers of the host that are armed
  (\<^verbatim>\<open>setInterval\<close> adds a handle, \<^verbatim>\<open>clearInterval\<close> removes it), the suspended calls
  of \<^verbatim>\<open>processQueue\<close>, the identifiers of the calls the gateway has accepted, and the
  events given to \<^verbatim>\<open>emitCallUpdate\<close>.
\<close>

record world =
  leads :: "lead list"
  callLogs :: "callLog list"
  users :: "user list"
  timers :: "nat list"
  nextTimer :: nat
  pending :: "tickState list"
  placedCalls :: "string list"
  emitted :: "(string \<times> objectId) list"

record callInfo =
  ci_leadId :: objectId
  ci_salespersonId :: objectId
  ci_startTime :: date

text \<open>
  The fields of \<^verbatim>\<open>class CallQueue\<close>. \<^verbatim>\<open>activeCalls\<close> is a \<^verbatim>\<open>Map\<close> keyed by the
  lead's identifier: an association list with \<open>AList.update\<close> for \<^verbatim>\<open>set\<close>,
  \<open>AList.delete\<close> for \<^verbatim>\<open>delete\<close> and its length for \<^verbatim>\<open>size\<close>.
\<close>

record callQueue =
  isRunning :: bool
  callInterval :: "nat option"
  callTimeout :: int
  maxConcurrentCalls :: nat
  activeCalls :: "(objectId \<times> callInfo) list"
  callDelay :: int

text \<open>
  The constructor; the argument is \<^verbatim>\<open>parseInt(process.env.CALL_TIMEOUT)\<close>, \<open>None\<close>
  when that is \<^verbatim>\<open>NaN\<close>.
\<close>

definition newCallQueue :: "int option \<Rightarrow> callQueue" where
  "newCallQueue envTimeout =
     \<lparr>isRunning = False, callInterval = None,
      callTimeout = (case envTimeout of None \<Rightarrow> 30000 | Some n \<Rightarrow> if n = 0 then 30000 else n),
      maxConcurrentCalls = 5, activeCalls = [], callDelay = 5000\<rparr>"

subsection \<open>services/callQueue.js\<close>

definition start :: "callQueue \<Rightarrow> world \<Rightarrow> callQueue \<times> world" where
  "start q w =
     (if isRunning q then (q, w)
      else
        let t = nextTimer w
        in (q\<lparr>isRunning := True, callInterval := Some t\<rparr>,
            w\<lparr>timers := t # timers w, nextTimer := Suc t\<rparr>))"

definition stop :: "callQueue \<Rightarrow> world \<Rightarrow> callQueue \<times> world" where
  "stop q w =
     (if \<not> isRunning q then (q, w)
      else
        let q1 = q\<lparr>isRunning := False\<rparr>
        in (case callInterval q1 of
              None \<Rightarrow> (q1, w)
            | Some t \<Rightarrow> (q1\<lparr>callInterval := None\<rparr>, w\<lparr>timers := removeAll t (timers w)\<rparr>)))"

definition pause :: "callQueue \<Rightarrow> world \<Rightarrow> callQueue \<times> world" where
  "pause q w = (if isRunning q then stop q w else (q, w))"

definition resume :: "callQueue \<Rightarrow> world \<Rightarrow> callQueue \<times> world" where
  "resume q w = (if \<not> isRunning q then start q w else (q, w))"

record queueStatus =
  qs_isRunning :: bool
  qs_activeCalls :: nat
  qs_maxConcurrentCalls :: nat
  qs_callDelay :: int
  qs_callTimeout :: int

definition getStatus :: "callQueue \<Rightarrow> queueStatus" where
  "getStatus q =
     \<lparr>qs_isRunning = isRunning q, qs_activeCalls = length (activeCalls q),
      qs_maxConcurrentCalls = maxConcurrentCalls q, qs_callDelay = callDelay q,
      qs_callTimeout = callTimeout q\<rparr>"

text \<open>
  \<^verbatim>\<open>findAvailableSalesperson\<close>: ascending on \<^verbatim>\<open>callStats.totalCalls\<close>, then
  descending on \<^verbatim>\<open>lastLogin\<close>, where a missing date comes last.
\<close>

definition findAvailableSalesperson :: "user list \<Rightarrow> user option" where
  "findAvailableSalesperson store =
     (case sort_key
             (\<lambda>u. (totalCalls u,
                    (case lastLogin u of None \<Rightarrow> (1::int, 0::int) | Some t \<Rightarrow> (0, - t))))
             (filter (\<lambda>u. role u = ''salesperson'' \<and> isAvailable u \<and> user_isActive u) store) of
        [] \<Rightarrow> None
      | u # _ \<Rightarrow> Some u)"

definition errorText :: "error \<Rightarrow> string" where
  "errorText e =
     (case e of
        ValidationError msg \<Rightarrow> msg
      | DocumentNotFoundError \<Rightarrow> ''No document found''
      | DuplicateKeyError \<Rightarrow> ''E11000 duplicate key error'')"

text \<open>
  \<^verbatim>\<open>handleCallFailure\<close>. An exception of either \<^verbatim>\<open>save\<close> is caught by the function's
  own handler, which only logs: the statements after the throwing one are skipped.
\<close>

definition handleCallFailure ::
  "date \<Rightarrow> lead \<Rightarrow> callLog option \<Rightarrow> string \<Rightarrow> callQueue \<Rightarrow> world \<Rightarrow> callQueue \<times> world" where
  "handleCallFailure now l cl err q w =
     (case saveLead now (l\<lparr>status := ''pending'', assignedTo := None\<rparr>) (leads w) of
        Inl e \<Rightarrow> (q, w)
      | Inr (l', ls) \<Rightarrow>
          let w1 = w\<lparr>leads := ls\<rparr>
          in (case cl of
                None \<Rightarrow> (q\<lparr>activeCalls := AList.delete (lead_id l) (activeCalls q)\<rparr>, w1)
              | Some c \<Rightarrow>
                  (case saveCallLog now (c\<lparr>log_status := ''failed'', errorMessage := Some err\<rparr>)
                          (callLogs w1) of
                     Inl e \<Rightarrow> (q, w1)
                   | Inr (c', cs) \<Rightarrow>
                       (q\<lparr>activeCalls := AList.delete (lead_id l) (activeCalls q)\<rparr>,
                        w1\<lparr>callLogs := cs\<rparr>))))"

definition freshLogId :: "callLog list \<Rightarrow> objectId" where
  "freshLogId store = Suc (fold max (map log_id store) 0)"

text \<open>
  \<^verbatim>\<open>makeCall\<close>; \<open>fromNumber\<close> is \<^verbatim>\<open>process.env.TWILIO_PHONE_NUMBER\<close>. Every exception
  inside the \<^verbatim>\<open>try\<close> block ends in \<^verbatim>\<open>handleCallFailure(lead, null, error.message)\<close>
  with the lead document as it is in memory at that point.
\<close>

definition makeCall ::
  "date \<Rightarrow> string option \<Rightarrow> gateway \<Rightarrow> lead \<Rightarrow> user \<Rightarrow> callQueue \<Rightarrow> world
     \<Rightarrow> callQueue \<times> world" where
  "makeCall now fromNumber gw l sp q w =
     (let l0 = l\<lparr>status := ''calling'', assignedTo := Some (user_id sp)\<rparr>
      in (case saveLead now l0 (leads w) of
            Inl e \<Rightarrow> handleCallFailure now l0 None (errorText e) q w
          | Inr (l1, ls) \<Rightarrow>
              let w1 = w\<lparr>leads := ls\<rparr>;
                  c0 = \<lparr>log_id = freshLogId (callLogs w1), log_lead = lead_id l1,
                        salesperson = Some (user_id sp), twilioCallSid = None,
                        log_status = ''initiated'', log_from = fromNumber, log_to = phone l1,
                        log_duration = 0, startTime = now, endTime = None, answerTime = None,
                        log_notes = None, errorCode = None, errorMessage = None,
                        log_createdAt = now, log_updatedAt = now\<rparr>
              in (case saveCallLog now c0 (callLogs w1) of
                    Inl e \<Rightarrow> handleCallFailure now l1 None (errorText e) q w1
                  | Inr (c1, cs) \<Rightarrow>
                      let w2 = w1\<lparr>callLogs := cs\<rparr>
                      in (case initiateCall gw (phone l1) (user_phone sp) of
                            Inr sid \<Rightarrow>
                              let w3 = w2\<lparr>placedCalls := placedCalls w2 @ [sid]\<rparr>
                              in (case saveCallLog now (c1\<lparr>twilioCallSid := Some sid\<rparr>)
                                         (callLogs w3) of
                                    Inl e \<Rightarrow> handleCallFailure now l1 None (errorText e) q w3
                                  | Inr (c2, cs2) \<Rightarrow>
                                      (q, w3\<lparr>callLogs := cs2,
                                             emitted := emitted w3 @
                                               [(''call_initiated'', log_id c2)]\<rparr>))
                          | Inl err \<Rightarrow> handleCallFailure now l1 (Some c1) err q w2))))"

definition processQueue ::
  "date \<Rightarrow> string option \<Rightarrow> gateway \<Rightarrow> callQueue \<Rightarrow> world \<Rightarrow> callQueue \<times> world" where
  "processQueue now fromNumber gw q w =
     (if length (activeCalls q) \<ge> maxConcurrentCalls q then (q, w)
      else
        (case getNextLeadToCall now (leads w) of
           None \<Rightarrow> (q, w)
         | Some l \<Rightarrow>
             if map_of (activeCalls q) (lead_id l) \<noteq> None then (q, w)
             else
               (case findAvailableSalesperson (users w) of
                  None \<Rightarrow> (q, w)
                | Some sp \<Rightarrow>
                    makeCall now fromNumber gw l sp
                      (q\<lparr>activeCalls :=
                           AList.update (lead_id l)
                             \<lparr>ci_leadId = lead_id l, ci_salespersonId = user_id sp,
                              ci_startTime = now\<rparr>
                             (activeCalls q)\<rparr>)
                      w)))"

text \<open>
  The same function in the three parts that its two \<^verbatim>\<open>await\<close>s separate. The timer's
  callback runs the first part: the size check, and the query for the next lead is sent.
  The second part runs when that query has answered, with the collection as it is then;
  the third when the query for an agent has answered, and it goes on into
  \<^verbatim>\<open>makeCall\<close>. \<open>k\<close> is the position of the suspended call among those pending.
\<close>

definition dropAt :: "nat \<Rightarrow> 'a list \<Rightarrow> 'a list" where
  "dropAt k xs = take k xs @ drop (Suc k) xs"

definition tickStart :: "callQueue \<Rightarrow> world \<Rightarrow> callQueue \<times> world" where
  "tickStart q w =
     (if length (activeCalls q) \<ge> maxConcurrentCalls q then (q, w)
      else (q, w\<lparr>pending := pending w @ [AwaitLead]\<rparr>))"

definition tickLead :: "nat \<Rightarrow> date \<Rightarrow> callQueue \<Rightarrow> world \<Rightarrow> callQueue \<times> world" where
  "tickLead k now q w =
     (if k < length (pending w) \<and> pending w ! k = AwaitLead then
        (case getNextLeadToCall now (leads w) of
           None \<Rightarrow> (q, w\<lparr>pending := dropAt k (pending w)\<rparr>)
         | Some l \<Rightarrow>
             if map_of (activeCalls q) (lead_id l) \<noteq> None
             then (q, w\<lparr>pending := dropAt k (pending w)\<rparr>)
             else (q, w\<lparr>pending := (pending w)[k := AwaitAgent l]\<rparr>))
      else (q, w))"

definition tickAgent ::
  "nat \<Rightarrow> date \<Rightarrow> string option \<Rightarrow> gateway \<Rightarrow> callQueue \<Rightarrow> world \<Rightarrow> callQueue \<times> world" where
  "tickAgent k now fromNumber gw q w =
     (if k < length (pending w) then
        (case pending w ! k of
           AwaitLead \<Rightarrow> (q, w)
         | AwaitAgent l \<Rightarrow>
             let w0 = w\<lparr>pending := dropAt k (pending w)\<rparr>
             in (case findAvailableSalesperson (users w) of
                   None \<Rightarrow> (q, w0)
                 | Some sp \<Rightarrow>
                     makeCall now fromNumber gw l sp
                       (q\<lparr>activeCalls :=
                            AList.update (lead_id l)
                              \<lparr>ci_leadId = lead_id l, ci_salespersonId = user_id sp,
                               ci_startTime = now\<rparr>
                              (activeCalls q)\<rparr>)
                       w0))
      else (q, w))"

text \<open>
  The block \<^verbatim>\<open>// Update lead status based on call result\<close>, which
  \<^verbatim>\<open>handleCallCompletion\<close> and \<^verbatim>\<open>handleCallStatusUpdate\<close> both contain, with the lead
  looked up by the reference of the call log. The branches for \<^verbatim>\<open>answered\<close> and
  \<^verbatim>\<open>completed\<close> assign to the lead document in memory and never save it, so the
  collection does not change there. The result is the collection, or the exception of
  \<^verbatim>\<open>updateCallStatus\<close>.
\<close>

definition updateLeadFromCall ::
  "date \<Rightarrow> string \<Rightarrow> int \<Rightarrow> objectId \<Rightarrow> lead list \<Rightarrow> error + lead list" where
  "updateLeadFromCall now st duration leadRef store =
     (case findLeadById leadRef store of
        None \<Rightarrow> Inr store
      | Some l \<Rightarrow>
          if st = ''answered'' then Inr store
          else if st = ''completed'' then Inr store
          else if st \<in> set [''busy'', ''no-answer'', ''failed''] then
            (case updateCallStatus now st duration [] l store of
               Inl e \<Rightarrow> Inl e
             | Inr (l', ls) \<Rightarrow> Inr ls)
          else Inr store)"

text \<open>
  \<^verbatim>\<open>handleCallCompletion\<close>; it calls \<^verbatim>\<open>updateCallStatus(status)\<close>, so the duration is
  the default 0. An exception of the lead update is caught by the outer handler and the
  update of the agent's counters is skipped.
\<close>

definition handleCallCompletion ::
  "date \<Rightarrow> objectId \<Rightarrow> string \<Rightarrow> callQueue \<Rightarrow> world \<Rightarrow> callQueue \<times> world" where
  "handleCallCompletion now callLogId st q w =
     (case findCallLogById callLogId (callLogs w) of
        None \<Rightarrow> (q, w)
      | Some cl \<Rightarrow>
          let q1 = q\<lparr>activeCalls := AList.delete (log_lead cl) (activeCalls q)\<rparr>
          in (case updateLeadFromCall now st 0 (log_lead cl) (leads w) of
                Inl e \<Rightarrow> (q1, w)
              | Inr ls \<Rightarrow>
                  let w1 = w\<lparr>leads := ls\<rparr>
                  in (case findUserById (salesperson cl) (users w1) of
                        None \<Rightarrow> (q1, w1)
                      | Some sp \<Rightarrow>
                          let sp1 = sp\<lparr>totalCalls := totalCalls sp + 1\<rparr>;
                              sp2 = (if st = ''completed''
                                     then sp1\<lparr>successfulCalls := successfulCalls sp1 + 1\<rparr>
                                     else sp1)
                          in (q1, w1\<lparr>users := saveUser sp2 (users w1)\<rparr>))))"

text \<open>
  \<^verbatim>\<open>resetStuckLeads\<close>: the query, then the loop over its result. The handler encloses
  the whole loop, so a \<^verbatim>\<open>save\<close> that throws ends it and the leads after it stay as
  they are.
\<close>

definition stuck :: "date \<Rightarrow> lead \<Rightarrow> bool" where
  "stuck now l \<longleftrightarrow> status l = ''calling'' \<and> updatedAt l < now - 5 * 60 * 1000"

fun resetLoop :: "date \<Rightarrow> lead list \<Rightarrow> lead list \<Rightarrow> lead list" where
  "resetLoop now [] store = store"
| "resetLoop now (l # ls) store =
     (case saveLead now (l\<lparr>status := ''pending'', assignedTo := None\<rparr>) store of
        Inl e \<Rightarrow> store
      | Inr (l', store') \<Rightarrow> resetLoop now ls store')"

definition resetStuckLeads :: "date \<Rightarrow> world \<Rightarrow> world" where
  "resetStuckLeads now w = w\<lparr>leads := resetLoop now (filter (stuck now) (leads w)) (leads w)\<rparr>"

definition initialize :: "date \<Rightarrow> callQueue \<Rightarrow> world \<Rightarrow> callQueue \<times> world" where
  "initialize now q w = start q (resetStuckLeads now w)"

subsection \<open>The status webhook\<close>

text \<open>
  \<^verbatim>\<open>handleCallStatusUpdate\<close> maps the provider's status, updates the call log and then
  the lead. It rethrows: the result carries the exception, if any, next to the state
  reached.
\<close>

definition mapTwilioStatus :: "string \<Rightarrow> int \<Rightarrow> string \<times> additionalData" where
  "mapTwilioStatus twilioStatus duration =
     (if twilioStatus = ''initiated'' then (''initiated'', noData)
      else if twilioStatus = ''ringing'' then (''ringing'', noData)
      else if twilioStatus = ''answered'' then (''answered'', noData)
      else if twilioStatus = ''completed'' then
        (''completed'', noData\<lparr>ad_duration := Some duration\<rparr>)
      else if twilioStatus = ''busy'' then (''busy'', noData)
      else if twilioStatus = ''no-answer'' then (''no-answer'', noData)
      else if twilioStatus = ''failed'' then (''failed'', noData)
      else if twilioStatus = ''canceled'' then (''canceled'', noData)
      else (''failed'',
            noData\<lparr>ad_errorMessage := Some (''Unknown Twilio status: '' @ twilioStatus)\<rparr>))"

definition handleCallStatusUpdate ::
  "date \<Rightarrow> callLog \<Rightarrow> string \<Rightarrow> int \<Rightarrow> world \<Rightarrow> error option \<times> world" where
  "handleCallStatusUpdate now cl twilioStatus duration w =
     (case mapTwilioStatus twilioStatus duration of
        (st, ad) \<Rightarrow>
          (case updateStatus now st ad cl (callLogs w) of
             Inl e \<Rightarrow> (Some e, w)
           | Inr (cl', cs) \<Rightarrow>
               let w1 = w\<lparr>callLogs := cs\<rparr>
               in (case updateLeadFromCall now st duration (log_lead cl') (leads w1) of
                     Inl e \<Rightarrow> (Some e, w1)
                   | Inr ls \<Rightarrow> (None, w1\<lparr>leads := ls\<rparr>))))"

text \<open>
  The route \<^verbatim>\<open>POST /api/calls/webhook/status\<close>: the HTTP status of the answer and the
  state after it.
\<close>

definition webhookStatus :: "date \<Rightarrow> string \<Rightarrow> string \<Rightarrow> int \<Rightarrow> world \<Rightarrow> nat \<times> world" where
  "webhookStatus now callSid callStatus callDuration w =
     (case findCallLogBySid callSid (callLogs w) of
        None \<Rightarrow> (404, w)
      | Some cl \<Rightarrow>
          (case handleCallStatusUpdate now cl callStatus callDuration w of
             (None, w') \<Rightarrow> (200, w')
           | (Some e, w') \<Rightarrow> (500, w')))"

subsection \<open>routes/operator.js: claiming a lead\<close>

text \<open>
  The route \<^verbatim>\<open>POST /api/operator/leads/claim\<close>; \<open>leadId\<close> is \<open>None\<close> when the
  request body has none.
\<close>

definition claimLead :: "date \<Rightarrow> objectId option \<Rightarrow> objectId \<Rightarrow> lead list \<Rightarrow> nat \<times> lead list" where
  "claimLead now leadId userId store =
     (case leadId of
        None \<Rightarrow> (400, store)
      | Some i \<Rightarrow>
          (case findLeadById i store of
             None \<Rightarrow> (404, store)
           | Some l \<Rightarrow>
               if \<not> isActive l then (400, store)
               else if status l \<noteq> ''pending'' then (400, store)
               else if assignedTo l \<noteq> None then (400, store)
               else
                 (case saveLead now (l\<lparr>assignedTo := Some userId, status := ''claimed''\<rparr>) store of
                    Inl e \<Rightarrow> (500, store)
                  | Inr (l', store') \<Rightarrow> (200, store'))))"

subsection \<open>The admin route for bulk actions on leads\<close>

text \<open>
  The route \<^verbatim>\<open>POST /api/admin/leads/bulk-action\<close> for a request that names an action
  the route knows, a list of identifiers and the data of the action. Each action is one
  \<^verbatim>\<open>Lead.updateMany\<close>, which runs no schema validator and stamps \<^verbatim>\<open>updatedAt\<close>. Tags
  are no field of the lead record, so \<^verbatim>\<open>add_tags\<close> shows in the update time only.
\<close>

datatype bulkAction =
    UpdatePriority string
  | UpdateStatus string
  | AddTags "string list"
  | Delete

definition updateMany :: "date \<Rightarrow> objectId list \<Rightarrow> (lead \<Rightarrow> lead) \<Rightarrow> lead list \<Rightarrow> lead list" where
  "updateMany now leadIds f store =
     map (\<lambda>l. if lead_id l \<in> set leadIds then (f l)\<lparr>updatedAt := now\<rparr> else l) store"

definition bulkLeadAction :: "date \<Rightarrow> bulkAction \<Rightarrow> objectId list \<Rightarrow> lead list \<Rightarrow> nat \<times> lead list" where
  "bulkLeadAction now action leadIds store =
     (case action of
        UpdatePriority p \<Rightarrow> (200, updateMany now leadIds (\<lambda>l. l\<lparr>priority := p\<rparr>) store)
      | UpdateStatus st \<Rightarrow> (200, updateMany now leadIds (\<lambda>l. l\<lparr>status := st\<rparr>) store)
      | AddTags ts \<Rightarrow> (200, updateMany now leadIds (\<lambda>l. l) store)
      | Delete \<Rightarrow> (200, updateMany now leadIds (\<lambda>l. l\<lparr>isActive := False\<rparr>) store))"

subsection \<open>Runs of the scheduler\<close>

text \<open>
  What can happen to the process: the timer fires and a tick begins; the lead query or
  the agent query of a pending tick answers and that tick goes on; the administrative
  operations; a completion; a webhook; a bulk action; and any other change that other
  code makes to the three collections. A tick that has begun goes on after \<^verbatim>\<open>stop\<close>:
  \<^verbatim>\<open>clearInterval\<close> only prevents further firings.
\<close>

datatype event =
    TimerFires
  | LeadQueryAnswers nat date
  | AgentQueryAnswers nat date "string option" gateway
  | Start
  | Stop
  | Pause
  | Resume
  | Initialize date
  | ResetStuck date
  | Completion date objectId string
  | Webhook date string string int
  | Bulk date bulkAction "objectId list"
  | StoreChange "lead list" "callLog list" "user list"

fun step :: "event \<Rightarrow> callQueue \<times> world \<Rightarrow> callQueue \<times> world" where
  "step TimerFires (q, w) = (if isRunning q then tickStart q w else (q, w))"
| "step (LeadQueryAnswers k now) (q, w) = tickLead k now q w"
| "step (AgentQueryAnswers k now fromNumber gw) (q, w) = tickAgent k now fromNumber gw q w"
| "step Start (q, w) = start q w"
| "step Stop (q, w) = stop q w"
| "step Pause (q, w) = pause q w"
| "step Resume (q, w) = resume q w"
| "step (Initialize now) (q, w) = initialize now q w"
| "step (ResetStuck now) (q, w) = (q, resetStuckLeads now w)"
| "step (Completion now i st) (q, w) = handleCallCompletion now i st q w"
| "step (Webhook now sid st d) (q, w) = (q, snd (webhookStatus now sid st d w))"
| "step (Bulk now a ids) (q, w) = (q, w\<lparr>leads := snd (bulkLeadAction now a ids (leads w))\<rparr>)"
| "step (StoreChange ls cs us) (q, w) = (q, w\<lparr>leads := ls, callLogs := cs, users := us\<rparr>)"

definition run :: "event list \<Rightarrow> callQueue \<times> world \<Rightarrow> callQueue \<times> world" where
  "run es s = fold step es s"

definition initialWorld :: "lead list \<Rightarrow> callLog list \<Rightarrow> user list \<Rightarrow> world" where
  "initialWorld ls cs us =
     \<lparr>leads = ls, callLogs = cs, users = us, timers = [], nextTimer = 0, pending = [],
      placedCalls = [], emitted = []\<rparr>"

inductive reachable :: "callQueue \<times> world \<Rightarrow> bool" where
  reach_init: "reachable (newCallQueue envTimeout, initialWorld ls cs us)"
| reach_step: "reachable s \<Longrightarrow> reachable (step e s)"

subsection \<open>Concrete documents\<close>

text \<open>A lead with a valid phone number, no history and no pending retry.\<close>

definition exampleLead :: "objectId \<Rightarrow> string \<Rightarrow> string \<Rightarrow> int \<Rightarrow> date \<Rightarrow> lead" where
  "exampleLead i st p n t =
     \<lparr>lead_id = i, phone = ''+998901234567'', status = st, priority = p, callAttempts = n,
      lastCallAttempt = None, nextCallTime = None, assignedTo = None, callHistory = [],
      isActive = True, createdAt = t, updatedAt = t\<rparr>"

text \<open>
  The part of the state that only \<^verbatim>\<open>start\<close> and \<^verbatim>\<open>stop\<close> write: the running flag,
  the timer handle, the concurrency limit and the host's timers.
\<close>

definition sameControl :: "callQueue \<times> world \<Rightarrow> callQueue \<times> world \<Rightarrow> bool" where
  "sameControl s s' \<longleftrightarrow>
     isRunning (fst s') = isRunning (fst s) \<and>
     callInterval (fst s') = callInterval (fst s) \<and>
     maxConcurrentCalls (fst s') = maxConcurrentCalls (fst s) \<and>
     timers (snd s') = timers (snd s) \<and>
     nextTimer (snd s') = nextTimer (snd s)"

text \<open>
  What holds of the queue in every state a run can reach: the limit is the constructor's
  5, and the running flag, the timer handle and the host's timers agree.
\<close>

definition schedulerInv :: "callQueue \<times> world \<Rightarrow> bool" where
  "schedulerInv s \<longleftrightarrow>
     maxConcurrentCalls (fst s) = 5 \<and>
     isRunning (fst s) = (callInterval (fst s) \<noteq> None) \<and>
     timers (snd s) = (case callInterval (fst s) of None \<Rightarrow> [] | Some t \<Rightarrow> [t])"

definition exampleUser :: "objectId \<Rightarrow> int \<Rightarrow> user" where
  "exampleUser i n =
     \<lparr>user_id = i, role = ''salesperson'', isAvailable = True, user_isActive = True,
      user_phone = ''+998907654321'', totalCalls = n, successfulCalls = 0, lastLogin = None\<rparr>"

definition exampleInfo :: "objectId \<Rightarrow> objectId \<times> callInfo" where
  "exampleInfo i = (i, \<lparr>ci_leadId = i, ci_salespersonId = 7, ci_startTime = 0\<rparr>)"

text \<open>
  Six eligible leads and one available agent in a fresh process. The queue is started
  and four ticks run one after the other, each placing a simulated call. Then the timer
  fires twice before the lead query of the first of the two ticks answers, and the two
  ticks go on one after the other.
\<close>

definition overlapWorld :: world where
  "overlapWorld =
     initialWorld (map (\<lambda>i. exampleLead i ''pending'' ''high'' 0 (int i)) [1, 2, 3, 4, 5, 6]) []
       [exampleUser 7 0]"

definition goOn :: "string \<Rightarrow> event list" where
  "goOn sid =
     [LeadQueryAnswers 0 10, AgentQueryAnswers 0 10 (Some ''+15550100'') (Simulated sid)]"

definition overlapEvents :: "event list" where
  "overlapEvents =
     Start #
     (TimerFires # goOn ''sim_1'') @ (TimerFires # goOn ''sim_2'') @
     (TimerFires # goOn ''sim_3'') @ (TimerFires # goOn ''sim_4'') @
     [TimerFires, TimerFires] @ goOn ''sim_5'' @ goOn ''sim_6''"


text \<open>A fresh process with one eligible lead and one available agent.\<close>

definition smallWorld :: world where
  "smallWorld = initialWorld [exampleLead 1 ''pending'' ''high'' 0 1] [] [exampleUser 7 0]"


text \<open>A call log of an attempt in progress, placed at time 0.\<close>

definition exampleLog :: "objectId \<Rightarrow> objectId \<Rightarrow> objectId \<Rightarrow> string \<Rightarrow> string \<Rightarrow> callLog" where
  "exampleLog i leadRef agent sid st =
     \<lparr>log_id = i, log_lead = leadRef, salesperson = Some agent, twilioCallSid = Some sid,
      log_status = st, log_from = Some ''+15550100'', log_to = ''+998901234567'',
      log_duration = 0, startTime = 0, endTime = None, answerTime = None, log_notes = None,
      errorCode = None, errorMessage = None, log_createdAt = 0, log_updatedAt = 0\<rparr>"

text \<open>
  One lead being called for the first time by agent 7, with its call log \<^verbatim>\<open>CA1\<close> in
  \<^verbatim>\<open>ringing\<close>.
\<close>

definition callingWorld :: world where
  "callingWorld =
     initialWorld
       [(exampleLead 1 ''calling'' ''high'' 0 0)\<lparr>assignedTo := Some 7\<rparr>]
       [exampleLog 1 1 7 ''CA1'' ''ringing'']
       [exampleUser 7 0]"







section \<open>Properties\<close>

subsection \<open>Saving a lead\<close>

lemma find_replace:
  "find (\<lambda>x. f x = i) xs = Some old \<Longrightarrow> f y = i \<Longrightarrow>
   find (\<lambda>x. f x = i) (map (\<lambda>x. if f x = i then y else x) xs) = Some y"
  by (induction xs) (auto split: if_splits)

lemma saveLead_ok:
  assumes "validateLead l = None" and "findLeadById (lead_id l) store = Some old"
  shows "\<exists>l' store'. saveLead now l store = Inr (l', store') \<and>
           findLeadById (lead_id l) store' = Some l' \<and>
           (l' = l \<or> l' = l\<lparr>updatedAt := now\<rparr>)"
proof (cases "old = l")
  case True
  with assms show ?thesis by (simp add: saveLead_def)
next
  case False
  have "find (\<lambda>x. lead_id x = lead_id l)
          (map (\<lambda>x. if lead_id x = lead_id l then l\<lparr>updatedAt := now\<rparr> else x) store)
        = Some (l\<lparr>updatedAt := now\<rparr>)"
    using assms(2) unfolding findLeadById_def by (rule find_replace) simp
  with False assms show ?thesis by (simp add: saveLead_def findLeadById_def Let_def)
qed

lemma exampleLead_valid:
  "st \<in> set leadStatusEnum \<Longrightarrow> p \<in> set priorityEnum \<Longrightarrow> n \<le> 5 \<Longrightarrow>
   validateLead (exampleLead i st p n t) = None"
  by (simp add: validateLead_def exampleLead_def phoneChar_def)

lemma getNext_eligible:
  assumes "getNextLeadToCall now ls = Some r"
  shows "r \<in> set ls \<and> eligible now r"
proof -
  let ?xs = "sort_key (\<lambda>l. (priority l, createdAt l)) (filter (eligible now) ls)"
  from assms obtain rest where "?xs = r # rest"
    by (auto simp: getNextLeadToCall_def split: list.splits)
  then have "r \<in> set ?xs" by simp
  then show ?thesis by simp
qed

lemma same_id_same_doc:
  "distinct (map f xs) \<Longrightarrow> x \<in> set xs \<Longrightarrow> y \<in> set xs \<Longrightarrow> f x = f y \<Longrightarrow> x = y"
  by (meson distinct_map inj_onD)

subsection \<open>Selection order\<close>

text \<open>
  C1. The claim: selection returns the eligible lead of highest rank under
  urgent > high > medium > low, so an eligible urgent lead created after an eligible high
  lead is selected first. The code sorts on the priority label as a string, and
  \<^verbatim>\<open>high\<close> precedes \<^verbatim>\<open>urgent\<close> alphabetically: with an eligible high lead created
  at time 1 and an eligible urgent lead created at time 2, the query returns the high
  lead.
\<close>

theorem urgent_after_high_is_not_selected:
  "getNextLeadToCall 10
     [exampleLead 1 ''pending'' ''high'' 0 1, exampleLead 2 ''pending'' ''urgent'' 0 2] =
   Some (exampleLead 1 ''pending'' ''high'' 0 1)"
  by (simp add: getNextLeadToCall_def eligible_def exampleLead_def)

subsection \<open>Retry delays\<close>

text \<open>
  C2, as the code has it. When \<^verbatim>\<open>no_answer\<close> or \<^verbatim>\<open>busy\<close> is applied to a stored,
  valid lead and the incremented attempt count is below 3, the update is saved, the
  attempt count grows by one, and \<^verbatim>\<open>nextCallTime\<close> is \<open>now\<close> plus 30 minutes for
  \<^verbatim>\<open>no_answer\<close> and plus 15 minutes for \<^verbatim>\<open>busy\<close>. The status of the lead is the
  outcome label itself, \<^verbatim>\<open>no_answer\<close> or \<^verbatim>\<open>busy\<close>; it is not set back to
  \<^verbatim>\<open>pending\<close>.
\<close>

theorem retry_delay_keeps_outcome_status:
  assumes "findLeadById (lead_id l) store = Some l"
    and "validateLead l = None"
    and "callAttempts l + 1 < 3"
  shows "(\<exists>l' store'. updateCallStatus now ''no_answer'' d n l store = Inr (l', store') \<and>
            findLeadById (lead_id l) store' = Some l' \<and>
            status l' = ''no_answer'' \<and> nextCallTime l' = Some (now + 30 * 60 * 1000) \<and>
            callAttempts l' = callAttempts l + 1) \<and>
         (\<exists>l' store'. updateCallStatus now ''busy'' d n l store = Inr (l', store') \<and>
            findLeadById (lead_id l) store' = Some l' \<and>
            status l' = ''busy'' \<and> nextCallTime l' = Some (now + 15 * 60 * 1000) \<and>
            callAttempts l' = callAttempts l + 1)"
proof -
  have v: "validateLead (updateCallStatus_doc now st d n l) = None"
    if "st = ''no_answer'' \<or> st = ''busy''" for st
    using that assms(2,3)
    by (auto simp: updateCallStatus_doc_def Let_def validateLead_def leadStatusEnum_def
             split: if_splits)
  have i: "lead_id (updateCallStatus_doc now st d n l) = lead_id l" for st
    by (simp add: updateCallStatus_doc_def Let_def)
  have "\<exists>l' store'. updateCallStatus now st d n l store = Inr (l', store') \<and>
            findLeadById (lead_id l) store' = Some l' \<and>
            status l' = st \<and>
            nextCallTime l' = Some (now + (if st = ''no_answer'' then 30 else 15) * 60 * 1000) \<and>
            callAttempts l' = callAttempts l + 1"
    if st: "st = ''no_answer'' \<or> st = ''busy''" for st
  proof -
    from saveLead_ok [OF v [OF st], of store l now] assms(1) i
    obtain l' store' where
      s: "saveLead now (updateCallStatus_doc now st d n l) store = Inr (l', store')"
      and f: "findLeadById (lead_id l) store' = Some l'"
      and e: "l' = updateCallStatus_doc now st d n l \<or>
              l' = (updateCallStatus_doc now st d n l)\<lparr>updatedAt := now\<rparr>"
      by auto
    from e st assms(3) have "status l' = st \<and>
            nextCallTime l' = Some (now + (if st = ''no_answer'' then 30 else 15) * 60 * 1000) \<and>
            callAttempts l' = callAttempts l + 1"
      by (auto simp: updateCallStatus_doc_def Let_def split: if_splits)
    with s f show ?thesis by (simp add: updateCallStatus_def)
  qed
  from this [of "''no_answer''"] this [of "''busy''"] show ?thesis by simp
qed

theorem retry_delay_witness:
  "findLeadById 1 [exampleLead 1 ''calling'' ''medium'' 0 1] =
     Some (exampleLead 1 ''calling'' ''medium'' 0 1) \<and>
   validateLead (exampleLead 1 ''calling'' ''medium'' 0 1) = None \<and>
   callAttempts (exampleLead 1 ''calling'' ''medium'' 0 1) + 1 < 3 \<and>
   (\<exists>l' store'.
      updateCallStatus 100 ''no_answer'' 0 [] (exampleLead 1 ''calling'' ''medium'' 0 1)
        [exampleLead 1 ''calling'' ''medium'' 0 1] = Inr (l', store') \<and>
      status l' = ''no_answer'' \<and> nextCallTime l' = Some 1800100)"
proof -
  let ?l = "exampleLead 1 ''calling'' ''medium'' 0 1"
  have f: "findLeadById (lead_id ?l) [?l] = Some ?l"
    by (simp add: findLeadById_def exampleLead_def)
  have v: "validateLead ?l = None"
    by (rule exampleLead_valid) (simp_all add: leadStatusEnum_def priorityEnum_def)
  have c: "callAttempts ?l + 1 < 3"
    by (simp add: exampleLead_def)
  from retry_delay_keeps_outcome_status [OF f v c, of 100 0 "[]"] f v c
  show ?thesis by (auto simp: exampleLead_def)
qed

text \<open>
  The claim as stated fails: a lead in \<^verbatim>\<open>calling\<close> with no attempt so far, given
  \<^verbatim>\<open>no_answer\<close> at time 100, is saved with status \<^verbatim>\<open>no_answer\<close>.
\<close>

theorem pending_after_no_answer_counterexample:
  "callAttempts (exampleLead 1 ''calling'' ''medium'' 0 1) + 1 < 3 \<and>
   updateCallStatus 100 ''no_answer'' 0 [] (exampleLead 1 ''calling'' ''medium'' 0 1)
     [exampleLead 1 ''calling'' ''medium'' 0 1] =
   Inr ((exampleLead 1 ''no_answer'' ''medium'' 1 1)
          \<lparr>lastCallAttempt := Some 100, nextCallTime := Some 1800100,
           callHistory := [\<lparr>attempt = 1, timestamp = 100, h_status = ''no_answer'',
                            h_duration = 0, h_notes = []\<rparr>],
           updatedAt := 100\<rparr>,
        [(exampleLead 1 ''no_answer'' ''medium'' 1 1)
          \<lparr>lastCallAttempt := Some 100, nextCallTime := Some 1800100,
           callHistory := [\<lparr>attempt = 1, timestamp = 100, h_status = ''no_answer'',
                            h_duration = 0, h_notes = []\<rparr>],
           updatedAt := 100\<rparr>]) \<and>
   status (exampleLead 1 ''no_answer'' ''medium'' 1 1) \<noteq> ''pending''"
  by (simp add: updateCallStatus_def updateCallStatus_doc_def saveLead_def validateLead_def
        findLeadById_def exampleLead_def phoneChar_def leadStatusEnum_def priorityEnum_def
        Let_def)

subsection \<open>Retirement at the attempt cap\<close>

text \<open>
  C5. When \<^verbatim>\<open>no_answer\<close>, \<^verbatim>\<open>busy\<close> or \<^verbatim>\<open>failed\<close> is applied to a stored, valid lead
  and the incremented attempt count reaches 3 (up to the schema's bound of 5), the lead is
  saved with status \<^verbatim>\<open>failed\<close> and \<^verbatim>\<open>isActive = false\<close>, and no selection over a
  collection that holds this document returns a lead with its identifier, at any time.
\<close>

theorem exhausted_lead_is_retired:
  assumes "findLeadById (lead_id l) store = Some l"
    and "validateLead l = None"
    and "st = ''no_answer'' \<or> st = ''busy'' \<or> st = ''failed''"
    and "3 \<le> callAttempts l + 1"
    and "callAttempts l + 1 \<le> 5"
  shows "\<exists>l' store'. updateCallStatus now st d n l store = Inr (l', store') \<and>
           findLeadById (lead_id l) store' = Some l' \<and>
           status l' = ''failed'' \<and> \<not> isActive l' \<and>
           callAttempts l' = callAttempts l + 1 \<and>
           (\<forall>now' ls r. distinct (map lead_id ls) \<longrightarrow> l' \<in> set ls \<longrightarrow>
              getNextLeadToCall now' ls = Some r \<longrightarrow> lead_id r \<noteq> lead_id l')"
proof -
  let ?d = "updateCallStatus_doc now st d n l"
  have v: "validateLead ?d = None"
    using assms(2-5)
    by (auto simp: updateCallStatus_doc_def Let_def validateLead_def leadStatusEnum_def
             split: if_splits)
  have i: "lead_id ?d = lead_id l"
    by (simp add: updateCallStatus_doc_def Let_def)
  from saveLead_ok [OF v, of store l now] assms(1) i
  obtain l' store' where
    s: "saveLead now ?d store = Inr (l', store')"
    and f: "findLeadById (lead_id l) store' = Some l'"
    and e: "l' = ?d \<or> l' = ?d\<lparr>updatedAt := now\<rparr>"
    by auto
  from e assms(3,4) have p: "status l' = ''failed'' \<and> \<not> isActive l' \<and>
      callAttempts l' = callAttempts l + 1"
    by (auto simp: updateCallStatus_doc_def Let_def)
  have "lead_id r \<noteq> lead_id l'"
    if "distinct (map lead_id ls)" "l' \<in> set ls" "getNextLeadToCall now' ls = Some r"
    for now' ls r
  proof
    assume "lead_id r = lead_id l'"
    moreover from getNext_eligible [OF that(3)] have m: "r \<in> set ls" and el: "eligible now' r"
      by simp_all
    ultimately have "r = l'" using that(1,2) same_id_same_doc by metis
    with el p show False by (simp add: eligible_def)
  qed
  with s f p show ?thesis unfolding updateCallStatus_def by blast
qed

theorem exhausted_lead_witness:
  "findLeadById 1 [exampleLead 1 ''calling'' ''medium'' 2 1] =
     Some (exampleLead 1 ''calling'' ''medium'' 2 1) \<and>
   validateLead (exampleLead 1 ''calling'' ''medium'' 2 1) = None \<and>
   3 \<le> callAttempts (exampleLead 1 ''calling'' ''medium'' 2 1) + 1 \<and>
   callAttempts (exampleLead 1 ''calling'' ''medium'' 2 1) + 1 \<le> 5 \<and>
   (\<exists>l' store'.
      updateCallStatus 100 ''busy'' 0 [] (exampleLead 1 ''calling'' ''medium'' 2 1)
        [exampleLead 1 ''calling'' ''medium'' 2 1] = Inr (l', store') \<and>
      status l' = ''failed'' \<and> \<not> isActive l' \<and> callAttempts l' = 3 \<and>
      distinct (map lead_id (store' @ [exampleLead 2 ''pending'' ''low'' 0 5])) \<and>
      l' \<in> set (store' @ [exampleLead 2 ''pending'' ''low'' 0 5]) \<and>
      getNextLeadToCall 500 (store' @ [exampleLead 2 ''pending'' ''low'' 0 5]) =
        Some (exampleLead 2 ''pending'' ''low'' 0 5) \<and>
      lead_id (exampleLead 2 ''pending'' ''low'' 0 5) \<noteq> lead_id l')"
proof -
  let ?l = "exampleLead 1 ''calling'' ''medium'' 2 1"
  let ?l2 = "exampleLead 2 ''pending'' ''low'' 0 5"
  let ?x = "(exampleLead 1 ''failed'' ''medium'' 3 1)
              \<lparr>lastCallAttempt := Some 100,
               callHistory := [\<lparr>attempt = 3, timestamp = 100, h_status = ''busy'',
                                h_duration = 0, h_notes = []\<rparr>],
               isActive := False, updatedAt := 100\<rparr>"
  have f: "findLeadById (lead_id ?l) [?l] = Some ?l"
    by (simp add: findLeadById_def exampleLead_def)
  have v: "validateLead ?l = None"
    by (rule exampleLead_valid) (simp_all add: leadStatusEnum_def priorityEnum_def)
  have s: "''busy'' = ''no_answer'' \<or> ''busy'' = ''busy'' \<or> ''busy'' = ''failed''"
    by simp
  have c: "3 \<le> callAttempts ?l + 1" "callAttempts ?l + 1 \<le> 5"
    by (simp_all add: exampleLead_def)
  have ev: "updateCallStatus 100 ''busy'' 0 [] ?l [?l] = Inr (?x, [?x])"
    by (simp add: updateCallStatus_def updateCallStatus_doc_def saveLead_def validateLead_def
          findLeadById_def exampleLead_def phoneChar_def leadStatusEnum_def priorityEnum_def
          Let_def)
  from exhausted_lead_is_retired [OF f v s c, of 100 0 "[]"]
  obtain l' store' where
    u: "updateCallStatus 100 ''busy'' 0 [] ?l [?l] = Inr (l', store')"
    and p: "status l' = ''failed''" "\<not> isActive l'" "callAttempts l' = callAttempts ?l + 1"
    and n: "\<forall>now' ls r. distinct (map lead_id ls) \<longrightarrow> l' \<in> set ls \<longrightarrow>
              getNextLeadToCall now' ls = Some r \<longrightarrow> lead_id r \<noteq> lead_id l'"
    by blast
  from u ev have e: "l' = ?x" "store' = [?x]" by simp_all
  have d: "distinct (map lead_id (store' @ [?l2]))" and m: "l' \<in> set (store' @ [?l2])"
    unfolding e by (simp_all add: exampleLead_def)
  have g: "getNextLeadToCall 500 (store' @ [?l2]) = Some ?l2"
    unfolding e by (simp add: getNextLeadToCall_def eligible_def exampleLead_def)
  from n d m g have "lead_id ?l2 \<noteq> lead_id l'" by blast
  with u p d m g f v c show ?thesis by (auto simp: exampleLead_def)
qed

subsection \<open>Claiming a lead\<close>

lemma claimed_invalid:
  "validateLead (l\<lparr>assignedTo := Some userId, status := ''claimed''\<rparr>) \<noteq> None"
  by (simp add: validateLead_def leadStatusEnum_def)

lemma saveLead_status:
  assumes "saveLead now l store = Inr (l', store')"
  shows "status l' \<in> set leadStatusEnum \<and> status l' = status l \<and>
         set store' \<subseteq> insert l' (set store)"
  using assms
  by (auto simp: saveLead_def validateLead_def Let_def split: option.splits if_splits)

text \<open>
  C9, as the code has it. \<^verbatim>\<open>claimed\<close> is no member of the status enumeration of the
  Lead schema, so the document the claim route tries to save fails validation, whatever
  the lead. The route therefore never answers 200 and never changes the collection: a
  request that passes the route's own checks is answered 500. No \<^verbatim>\<open>save\<close> of a lead
  introduces the status \<^verbatim>\<open>claimed\<close> into a collection that is free of it.
\<close>

theorem claim_request_never_succeeds:
  "''claimed'' \<notin> set leadStatusEnum \<and>
   validateLead (l\<lparr>assignedTo := Some userId, status := ''claimed''\<rparr>) \<noteq> None \<and>
   fst (claimLead now leadId userId store) \<noteq> 200 \<and>
   snd (claimLead now leadId userId store) = store \<and>
   (findLeadById i store = Some l \<and> isActive l \<and> status l = ''pending'' \<and>
      assignedTo l = None \<longrightarrow>
    claimLead now (Some i) userId store = (500, store)) \<and>
   (\<forall>d l' store'. saveLead now d store = Inr (l', store') \<longrightarrow>
      (\<forall>x \<in> set store. status x \<noteq> ''claimed'') \<longrightarrow>
      (\<forall>x \<in> set store'. status x \<noteq> ''claimed''))"
proof -
  have e: "''claimed'' \<notin> set leadStatusEnum"
    by (simp add: leadStatusEnum_def)
  have s: "saveLead now (d\<lparr>assignedTo := Some userId, status := ''claimed''\<rparr>) store =
           Inl (ValidationError (the (validateLead
              (d\<lparr>assignedTo := Some userId, status := ''claimed''\<rparr>))))" for d
    using claimed_invalid [where l = d and userId = userId] by (auto simp: saveLead_def)
  have c: "claimLead now leadId userId store \<in> {(400, store), (404, store), (500, store)}"
    by (simp add: claimLead_def s split: option.splits)
  have p: "\<forall>x \<in> set store'. status x \<noteq> ''claimed''"
    if "saveLead now d store = Inr (l', store')" "\<forall>x \<in> set store. status x \<noteq> ''claimed''"
    for d l' store'
    using saveLead_status [OF that(1)] that(2) e by auto
  from c have "fst (claimLead now leadId userId store) \<noteq> 200"
    and "snd (claimLead now leadId userId store) = store"
    by auto
  moreover have "findLeadById i store = Some l \<and> isActive l \<and> status l = ''pending'' \<and>
      assignedTo l = None \<longrightarrow> claimLead now (Some i) userId store = (500, store)"
    by (simp add: claimLead_def s)
  ultimately show ?thesis using e claimed_invalid p by blast
qed

theorem claim_request_witness:
  "findLeadById 1 [exampleLead 1 ''pending'' ''high'' 0 1] =
     Some (exampleLead 1 ''pending'' ''high'' 0 1) \<and>
   isActive (exampleLead 1 ''pending'' ''high'' 0 1) \<and>
   status (exampleLead 1 ''pending'' ''high'' 0 1) = ''pending'' \<and>
   assignedTo (exampleLead 1 ''pending'' ''high'' 0 1) = None \<and>
   claimLead 50 (Some 1) 7 [exampleLead 1 ''pending'' ''high'' 0 1] =
     (500, [exampleLead 1 ''pending'' ''high'' 0 1]) \<and>
   saveLead 50 (exampleLead 1 ''calling'' ''high'' 0 1) [exampleLead 1 ''pending'' ''high'' 0 1] =
     Inr ((exampleLead 1 ''calling'' ''high'' 0 1)\<lparr>updatedAt := 50\<rparr>,
          [(exampleLead 1 ''calling'' ''high'' 0 1)\<lparr>updatedAt := 50\<rparr>]) \<and>
   list_all (\<lambda>x. status x \<noteq> ''claimed'') [exampleLead 1 ''pending'' ''high'' 0 1] \<and>
   list_all (\<lambda>x. status x \<noteq> ''claimed'')
     [(exampleLead 1 ''calling'' ''high'' 0 1)\<lparr>updatedAt := 50\<rparr>]"
proof -
  let ?l = "exampleLead 1 ''pending'' ''high'' 0 1"
  let ?d = "exampleLead 1 ''calling'' ''high'' 0 1"
  have h: "findLeadById 1 [?l] = Some ?l \<and> isActive ?l \<and> status ?l = ''pending'' \<and>
           assignedTo ?l = None"
    by (simp add: findLeadById_def exampleLead_def)
  have sv: "saveLead 50 ?d [?l] = Inr (?d\<lparr>updatedAt := 50\<rparr>, [?d\<lparr>updatedAt := 50\<rparr>])"
    by (simp add: saveLead_def validateLead_def findLeadById_def exampleLead_def phoneChar_def
          leadStatusEnum_def priorityEnum_def Let_def)
  have b: "\<forall>x \<in> set [?l]. status x \<noteq> ''claimed''"
    by (simp add: exampleLead_def)
  note t = claim_request_never_succeeds
    [where l = ?l and userId = 7 and now = 50 and leadId = "Some 1" and store = "[?l]" and i = 1]
  from t h have 1: "claimLead 50 (Some 1) 7 [?l] = (500, [?l])" by blast
  from t sv b have "\<forall>x \<in> set [?d\<lparr>updatedAt := 50\<rparr>]. status x \<noteq> ''claimed''" by blast
  then have 2: "list_all (\<lambda>x. status x \<noteq> ''claimed'') [?d\<lparr>updatedAt := 50\<rparr>]"
    by (simp add: list_all_iff)
  from b have 3: "list_all (\<lambda>x. status x \<noteq> ''claimed'') [?l]"
    by (simp add: list_all_iff)
  from h 1 sv 2 3 show ?thesis by simp
qed

text \<open>
  The claim as stated fails in its last part: a lead can be stored with status
  \<^verbatim>\<open>claimed\<close>. The admin's bulk action \<^verbatim>\<open>update_status\<close> writes with
  \<^verbatim>\<open>updateMany\<close>, which runs no validator.
\<close>

theorem bulk_status_claimed_counterexample:
  "bulkLeadAction 60 (UpdateStatus ''claimed'') [1] [exampleLead 1 ''pending'' ''high'' 0 1] =
     (200, [(exampleLead 1 ''claimed'' ''high'' 0 1)\<lparr>updatedAt := 60\<rparr>]) \<and>
   status ((exampleLead 1 ''claimed'' ''high'' 0 1)\<lparr>updatedAt := 60\<rparr>) = ''claimed'' \<and>
   map status
     (leads (snd (run [Bulk 60 (UpdateStatus ''claimed'') [1]] (newCallQueue None, smallWorld)))) =
     [''claimed'']"
  by (simp add: bulkLeadAction_def updateMany_def exampleLead_def run_def smallWorld_def
        initialWorld_def)

subsection \<open>What the queue operations leave alone\<close>

lemma length_update_le: "length (AList.update k v al) \<le> Suc (length al)"
proof -
  have "length (map fst (AList.update k v al)) \<le> Suc (length al)"
    by (simp add: update_keys)
  then show ?thesis by simp
qed

lemma handleCallFailure_frame:
  assumes "handleCallFailure now l cl err q w = (q', w')"
  shows "sameControl (q, w) (q', w') \<and> length (activeCalls q') \<le> length (activeCalls q) \<and>
         placedCalls w' = placedCalls w"
  using assms length_delete_le [of "lead_id l" "activeCalls q"]
  by (auto simp: handleCallFailure_def sameControl_def Let_def
           split: sum.splits option.splits prod.splits)

lemma makeCall_frame:
  assumes "makeCall now fromNumber gw l sp q w = (q', w')"
  shows "sameControl (q, w) (q', w') \<and> length (activeCalls q') \<le> length (activeCalls q) \<and>
         length (placedCalls w') \<le> Suc (length (placedCalls w))"
proof -
  have k: "sameControl (q, w) (q', w') \<and> length (activeCalls q') \<le> length (activeCalls q) \<and>
         length (placedCalls w') \<le> Suc (length (placedCalls w))"
    if "handleCallFailure now l0 cl err q w0 = (q', w')"
      and "timers w0 = timers w" "nextTimer w0 = nextTimer w"
      and "length (placedCalls w0) \<le> Suc (length (placedCalls w))"
    for l0 cl err w0
    using handleCallFailure_frame [OF that(1)] that(2-4)
    by (simp add: sameControl_def)
  from assms show ?thesis
    apply (simp add: makeCall_def Let_def split: sum.splits prod.splits)
    apply (auto dest!: k simp: sameControl_def)
    done
qed

lemma processQueue_frame:
  assumes "processQueue now fromNumber gw q w = (q', w')"
  shows "sameControl (q, w) (q', w') \<and>
         length (activeCalls q') \<le> Suc (length (activeCalls q)) \<and>
         length (placedCalls w') \<le> Suc (length (placedCalls w)) \<and>
         (length (activeCalls q) \<le> maxConcurrentCalls q \<longrightarrow>
            length (activeCalls q') \<le> maxConcurrentCalls q)"
proof (cases "length (activeCalls q) \<ge> maxConcurrentCalls q")
  case True
  with assms show ?thesis by (simp add: processQueue_def sameControl_def)
next
  case False
  show ?thesis
  proof (cases "\<exists>l sp. getNextLeadToCall now (leads w) = Some l \<and>
      map_of (activeCalls q) (lead_id l) = None \<and>
      findAvailableSalesperson (users w) = Some sp")
    case True
    then obtain l sp where g: "getNextLeadToCall now (leads w) = Some l"
      and m: "map_of (activeCalls q) (lead_id l) = None"
      and f: "findAvailableSalesperson (users w) = Some sp" by blast
    let ?q = "q\<lparr>activeCalls := AList.update (lead_id l)
                 \<lparr>ci_leadId = lead_id l, ci_salespersonId = user_id sp, ci_startTime = now\<rparr>
                 (activeCalls q)\<rparr>"
    from assms False g m f have "makeCall now fromNumber gw l sp ?q w = (q', w')"
      by (simp add: processQueue_def)
    from makeCall_frame [OF this]
    have c: "sameControl (?q, w) (q', w')"
      and a: "length (activeCalls q') \<le> length (activeCalls ?q)"
      and p: "length (placedCalls w') \<le> Suc (length (placedCalls w))"
      by simp_all
    have "length (activeCalls ?q) \<le> Suc (length (activeCalls q))"
      by (simp add: length_update_le)
    with a False have "length (activeCalls q') \<le> Suc (length (activeCalls q))"
      and "length (activeCalls q') \<le> maxConcurrentCalls q"
      by simp_all
    with c p show ?thesis by (simp add: sameControl_def)
  next
    case False
    with assms have "(q', w') = (q, w)"
      by (auto simp: processQueue_def split: option.splits if_splits)
    then show ?thesis by (simp add: sameControl_def)
  qed
qed

lemma handleCallCompletion_frame:
  assumes "handleCallCompletion now i st q w = (q', w')"
  shows "sameControl (q, w) (q', w') \<and> length (activeCalls q') \<le> length (activeCalls q) \<and>
         placedCalls w' = placedCalls w"
proof (cases "findCallLogById i (callLogs w)")
  case None
  with assms show ?thesis by (simp add: handleCallCompletion_def sameControl_def)
next
  case (Some cl)
  with assms length_delete_le [of "log_lead cl" "activeCalls q"] show ?thesis
    by (auto simp: handleCallCompletion_def sameControl_def Let_def
             split: sum.splits option.splits)
qed

lemma webhookStatus_frame:
  "timers (snd (webhookStatus now sid st d w)) = timers w \<and>
   nextTimer (snd (webhookStatus now sid st d w)) = nextTimer w \<and>
   placedCalls (snd (webhookStatus now sid st d w)) = placedCalls w"
  by (simp add: webhookStatus_def handleCallStatusUpdate_def Let_def
           split: sum.split option.split prod.split)

subsection \<open>Reachable states of the scheduler\<close>

lemma schedulerInv_init: "schedulerInv (newCallQueue envTimeout, initialWorld ls cs us)"
  by (simp add: schedulerInv_def newCallQueue_def initialWorld_def)

lemma schedulerInv_frame:
  assumes "schedulerInv s" and "sameControl s s'"
  shows "schedulerInv s'"
  using assms by (simp add: schedulerInv_def sameControl_def)

lemma schedulerInv_start: "schedulerInv (q, w) \<Longrightarrow> schedulerInv (start q w)"
  by (auto simp: schedulerInv_def start_def Let_def)

lemma schedulerInv_stop: "schedulerInv (q, w) \<Longrightarrow> schedulerInv (stop q w)"
  by (auto simp: schedulerInv_def stop_def Let_def split: option.splits)

lemma tickStart_frame: "sameControl (q, w) (tickStart q w)"
  by (simp add: tickStart_def sameControl_def)

lemma tickLead_frame: "sameControl (q, w) (tickLead k now q w)"
  by (simp add: tickLead_def sameControl_def split: option.split)

lemma tickAgent_frame: "sameControl (q, w) (tickAgent k now fromNumber gw q w)"
proof (cases "k < length (pending w)")
  case False
  then show ?thesis by (simp add: tickAgent_def sameControl_def)
next
  case True
  show ?thesis
  proof (cases "pending w ! k")
    case AwaitLead
    with True show ?thesis by (simp add: tickAgent_def sameControl_def)
  next
    case (AwaitAgent l)
    let ?w0 = "w\<lparr>pending := dropAt k (pending w)\<rparr>"
    show ?thesis
    proof (cases "findAvailableSalesperson (users w)")
      case None
      with True AwaitAgent show ?thesis by (simp add: tickAgent_def sameControl_def)
    next
      case (Some sp)
      let ?q = "q\<lparr>activeCalls := AList.update (lead_id l)
                 \<lparr>ci_leadId = lead_id l, ci_salespersonId = user_id sp, ci_startTime = now\<rparr>
                 (activeCalls q)\<rparr>"
      obtain q' w' where m: "makeCall now fromNumber gw l sp ?q ?w0 = (q', w')"
        by (cases "makeCall now fromNumber gw l sp ?q ?w0")
      from makeCall_frame [OF m] have "sameControl (?q, ?w0) (q', w')" by simp
      then have "sameControl (q, w) (q', w')" by (simp add: sameControl_def)
      with True AwaitAgent Some m show ?thesis by (simp add: tickAgent_def)
    qed
  qed
qed

lemma schedulerInv_step:
  assumes "schedulerInv s"
  shows "schedulerInv (step e s)"
proof -
  obtain q w where s: "s = (q, w)" by (cases s)
  note inv = assms [unfolded s]
  show ?thesis
  proof (cases e)
    case TimerFires
    with inv tickStart_frame [of q w] show ?thesis
      unfolding s by (auto intro: schedulerInv_frame)
  next
    case (LeadQueryAnswers k now)
    with inv tickLead_frame [of q w k now] show ?thesis
      unfolding s by (auto intro: schedulerInv_frame)
  next
    case (AgentQueryAnswers k now fromNumber gw)
    with inv tickAgent_frame [of q w k now fromNumber gw] show ?thesis
      unfolding s by (auto intro: schedulerInv_frame)
  next
    case Start
    with inv show ?thesis unfolding s by (simp add: schedulerInv_start)
  next
    case Stop
    with inv show ?thesis unfolding s by (simp add: schedulerInv_stop)
  next
    case Pause
    with inv show ?thesis unfolding s by (simp add: pause_def schedulerInv_stop)
  next
    case Resume
    with inv show ?thesis unfolding s by (simp add: resume_def schedulerInv_start)
  next
    case (Initialize now)
    from inv have "schedulerInv (q, resetStuckLeads now w)"
      by (simp add: schedulerInv_def resetStuckLeads_def)
    then show ?thesis unfolding s Initialize by (simp add: initialize_def schedulerInv_start)
  next
    case (ResetStuck now)
    with inv show ?thesis unfolding s by (simp add: schedulerInv_def resetStuckLeads_def)
  next
    case (Completion now i st)
    obtain q' w' where p: "handleCallCompletion now i st q w = (q', w')"
      by (cases "handleCallCompletion now i st q w")
    from handleCallCompletion_frame [OF p] inv show ?thesis
      unfolding s Completion by (simp add: p schedulerInv_frame)
  next
    case (Webhook now sid st d)
    with inv webhookStatus_frame [of now sid st d w] show ?thesis
      unfolding s by (simp add: schedulerInv_def)
  next
    case (Bulk now a ids)
    with inv show ?thesis unfolding s by (simp add: schedulerInv_def)
  next
    case (StoreChange ls cs us)
    with inv show ?thesis unfolding s by (simp add: schedulerInv_def)
  qed
qed

lemma reachable_schedulerInv: "reachable s \<Longrightarrow> schedulerInv s"
  by (induction rule: reachable.induct) (simp_all add: schedulerInv_init schedulerInv_step)

lemma reachable_run: "reachable s \<Longrightarrow> reachable (run es s)"
  unfolding run_def by (induction es arbitrary: s) (simp_all add: reachable.reach_step)

subsection \<open>The concurrency limit\<close>

text \<open>
  One call of \<^verbatim>\<open>processQueue\<close>, taken alone: with the limit reached at its size check
  it changes nothing, and in any case it places at most one call and adds at most one
  entry to the active calls.
\<close>

lemma processQueue_per_tick:
  "(maxConcurrentCalls q \<le> length (activeCalls q) \<longrightarrow>
      processQueue now fromNumber gw q w = (q, w)) \<and>
   length (placedCalls (snd (processQueue now fromNumber gw q w)))
     \<le> Suc (length (placedCalls w)) \<and>
   length (activeCalls (fst (processQueue now fromNumber gw q w)))
     \<le> Suc (length (activeCalls q))"
proof -
  obtain q' w' where p: "processQueue now fromNumber gw q w = (q', w')"
    by (cases "processQueue now fromNumber gw q w")
  have "maxConcurrentCalls q \<le> length (activeCalls q) \<longrightarrow>
      processQueue now fromNumber gw q w = (q, w)"
    by (simp add: processQueue_def)
  moreover from processQueue_frame [OF p]
  have "length (placedCalls (snd (processQueue now fromNumber gw q w)))
          \<le> Suc (length (placedCalls w))"
    and "length (activeCalls (fst (processQueue now fromNumber gw q w)))
          \<le> Suc (length (activeCalls q))"
    by (simp_all add: p)
  ultimately show ?thesis by blast
qed

text \<open>
  The three parts of a tick, run one after the other with nothing in between and no
  other tick pending, are \<^verbatim>\<open>processQueue\<close>.
\<close>

lemma processQueue_phases:
  assumes "pending w = []"
  shows "tickAgent 0 now fromNumber gw (fst (tickLead 0 now (fst (tickStart q w)) (snd (tickStart q w))))
           (snd (tickLead 0 now (fst (tickStart q w)) (snd (tickStart q w)))) =
         processQueue now fromNumber gw q w"
proof -
  have w: "w\<lparr>pending := []\<rparr> = w" using assms by (cases w) simp
  show ?thesis
    using assms
    by (simp add: tickStart_def tickLead_def tickAgent_def processQueue_def dropAt_def w
             split: option.split)
qed

text \<open>
  C8. The claim: no call is initiated when the active calls already number
  \<^verbatim>\<open>maxConcurrentCalls\<close>, so their number never exceeds the limit in any reachable
  state. The size check of \<^verbatim>\<open>processQueue\<close> and its \<^verbatim>\<open>activeCalls.set\<close> are separated
  by two \<^verbatim>\<open>await\<close>s, and the timer does not wait for a tick to finish. With four calls
  active, the timer fires twice before the first of the two ticks has its lead: both
  ticks pass the size check at 4, and when they go on the first adds the fifth entry and
  the second, which does not check again, the sixth. The state is reachable, the limit
  is 5, and the active calls are those of the leads 1 to 6, each with a call placed.
\<close>

theorem overlapping_ticks_exceed_limit:
  "reachable (run overlapEvents (newCallQueue None, overlapWorld)) \<and>
   maxConcurrentCalls (fst (run overlapEvents (newCallQueue None, overlapWorld))) = 5 \<and>
   map fst (activeCalls (fst (run overlapEvents (newCallQueue None, overlapWorld)))) =
     [1, 2, 3, 4, 5, 6] \<and>
   length (activeCalls (fst (run overlapEvents (newCallQueue None, overlapWorld)))) = 6 \<and>
   placedCalls (snd (run overlapEvents (newCallQueue None, overlapWorld))) =
     [''sim_1'', ''sim_2'', ''sim_3'', ''sim_4'', ''sim_5'', ''sim_6'']"
proof -
  have "reachable (run overlapEvents (newCallQueue None, overlapWorld))"
    unfolding overlapWorld_def by (intro reachable_run reachable.reach_init)
  moreover have
    "maxConcurrentCalls (fst (run overlapEvents (newCallQueue None, overlapWorld))) = 5 \<and>
     map fst (activeCalls (fst (run overlapEvents (newCallQueue None, overlapWorld)))) =
       [1, 2, 3, 4, 5, 6] \<and>
     length (activeCalls (fst (run overlapEvents (newCallQueue None, overlapWorld)))) = 6 \<and>
     placedCalls (snd (run overlapEvents (newCallQueue None, overlapWorld))) =
       [''sim_1'', ''sim_2'', ''sim_3'', ''sim_4'', ''sim_5'', ''sim_6'']"
    by code_simp
  ultimately show ?thesis by simp
qed

text \<open>
  C10. \<^verbatim>\<open>start\<close> on a running queue and \<^verbatim>\<open>stop\<close> on a stopped queue change neither
  the queue nor the host's timers; \<^verbatim>\<open>pause\<close> and \<^verbatim>\<open>resume\<close> are idempotent. In
  every reachable state \<^verbatim>\<open>getStatus\<close> reports \<^verbatim>\<open>isRunning\<close> exactly when a timer is
  armed, and at most one timer is armed.
\<close>

theorem start_stop_idempotent:
  "(isRunning q \<longrightarrow> start q w = (q, w)) \<and>
   (\<not> isRunning q \<longrightarrow> stop q w = (q, w)) \<and>
   pause (fst (pause q w)) (snd (pause q w)) = pause q w \<and>
   resume (fst (resume q w)) (snd (resume q w)) = resume q w \<and>
   (reachable (q, w) \<longrightarrow>
      qs_isRunning (getStatus q) = (timers w \<noteq> []) \<and> length (timers w) \<le> 1)"
proof -
  have "reachable (q, w) \<longrightarrow>
      qs_isRunning (getStatus q) = (timers w \<noteq> []) \<and> length (timers w) \<le> 1"
    using reachable_schedulerInv [of "(q, w)"]
    by (auto simp: schedulerInv_def getStatus_def split: option.splits)
  moreover have "pause (fst (pause q w)) (snd (pause q w)) = pause q w"
    by (simp add: pause_def stop_def Let_def split: option.splits)
  moreover have "resume (fst (resume q w)) (snd (resume q w)) = resume q w"
    by (simp add: resume_def start_def Let_def)
  ultimately show ?thesis by (simp add: start_def stop_def)
qed

theorem start_stop_witness:
  "\<not> isRunning (newCallQueue None) \<and>
   stop (newCallQueue None) smallWorld = (newCallQueue None, smallWorld) \<and>
   isRunning (fst (start (newCallQueue None) smallWorld)) \<and>
   start (fst (start (newCallQueue None) smallWorld)) (snd (start (newCallQueue None) smallWorld))
     = start (newCallQueue None) smallWorld \<and>
   reachable (step Start (newCallQueue None, smallWorld)) \<and>
   qs_isRunning (getStatus (fst (step Start (newCallQueue None, smallWorld)))) \<and>
   timers (snd (step Start (newCallQueue None, smallWorld))) = [0]"
proof -
  let ?q = "newCallQueue None"
  let ?s = "step Start (?q, smallWorld)"
  have n: "\<not> isRunning ?q" by (simp add: newCallQueue_def)
  have y: "isRunning (fst (start ?q smallWorld))" by (simp add: start_def n Let_def)
  have r: "reachable (fst ?s, snd ?s)"
    unfolding smallWorld_def prod.collapse by (intro reachable.intros)
  have t: "timers (snd ?s) = [0]"
    by (simp add: start_def n Let_def smallWorld_def initialWorld_def)
  from start_stop_idempotent [of ?q smallWorld] n
  have 1: "stop ?q smallWorld = (?q, smallWorld)" by blast
  from start_stop_idempotent [of "fst (start ?q smallWorld)" "snd (start ?q smallWorld)"] y
  have 2: "start (fst (start ?q smallWorld)) (snd (start ?q smallWorld)) = start ?q smallWorld"
    by simp
  from start_stop_idempotent [of "fst ?s" "snd ?s"] r t
  have 3: "qs_isRunning (getStatus (fst ?s))" by simp
  from n 1 y 2 r t 3 show ?thesis by simp
qed

subsection \<open>Stuck-lead recovery\<close>







subsection \<open>Placement failure\<close>

lemma find_append_new: "find P xs = None \<Longrightarrow> P c \<Longrightarrow> find P (xs @ [c]) = Some c"
  by (induction xs) (auto split: if_splits)

lemma fold_max_ge: "(a::nat) \<le> fold max xs a \<and> (\<forall>x \<in> set xs. x \<le> fold max xs a)"
proof (induction xs arbitrary: a)
  case Nil
  then show ?case by simp
next
  case (Cons y ys)
  from Cons.IH [of "max y a"] show ?case by auto
qed

lemma freshLogId_new: "findCallLogById (freshLogId store) store = None"
proof -
  have "\<forall>c \<in> set store. log_id c < freshLogId store"
    using fold_max_ge [of 0 "map log_id store"] by (auto simp: freshLogId_def less_Suc_eq_le)
  then show ?thesis
    by (auto simp: findCallLogById_def find_None_iff)
qed

lemma saveCallLog_ok:
  assumes "validateCallLog c = None" and "twilioCallSid c = None"
  shows "\<exists>c' store'. saveCallLog now c store = Inr (c', store') \<and>
           findCallLogById (log_id c) store' = Some c' \<and>
           (c' = c \<or> c' = c\<lparr>log_updatedAt := now\<rparr>)"
proof (cases "findCallLogById (log_id c) store")
  case None
  then have "findCallLogById (log_id c) (store @ [c]) = Some c"
    unfolding findCallLogById_def by (rule find_append_new) simp
  with None assms show ?thesis by (simp add: saveCallLog_def sidTaken_def)
next
  case (Some old)
  show ?thesis
  proof (cases "old = c")
    case True
    with Some assms show ?thesis by (simp add: saveCallLog_def sidTaken_def)
  next
    case False
    have "find (\<lambda>x. log_id x = log_id c)
            (map (\<lambda>x. if log_id x = log_id c then c\<lparr>log_updatedAt := now\<rparr> else x) store)
          = Some (c\<lparr>log_updatedAt := now\<rparr>)"
      using Some unfolding findCallLogById_def by (rule find_replace) simp
    with False Some assms show ?thesis
      by (simp add: saveCallLog_def sidTaken_def findCallLogById_def Let_def)
  qed
qed

lemma handleCallFailure_ok:
  assumes "findLeadById (lead_id l) (leads w) = Some old"
    and "validateLead (l\<lparr>status := ''pending'', assignedTo := None\<rparr>) = None"
    and "validateCallLog (c\<lparr>log_status := ''failed'', errorMessage := Some err\<rparr>) = None"
    and "twilioCallSid c = None"
  shows "\<exists>w' l' c'.
           handleCallFailure now l (Some c) err q w =
             (q\<lparr>activeCalls := AList.delete (lead_id l) (activeCalls q)\<rparr>, w') \<and>
           findLeadById (lead_id l) (leads w') = Some l' \<and>
           (l' = l\<lparr>status := ''pending'', assignedTo := None\<rparr> \<or>
            l' = l\<lparr>status := ''pending'', assignedTo := None, updatedAt := now\<rparr>) \<and>
           findCallLogById (log_id c) (callLogs w') = Some c' \<and>
           (c' = c\<lparr>log_status := ''failed'', errorMessage := Some err\<rparr> \<or>
            c' = c\<lparr>log_status := ''failed'', errorMessage := Some err, log_updatedAt := now\<rparr>) \<and>
           placedCalls w' = placedCalls w"
proof -
  let ?d = "l\<lparr>status := ''pending'', assignedTo := None\<rparr>"
  let ?e = "c\<lparr>log_status := ''failed'', errorMessage := Some err\<rparr>"
  from saveLead_ok [OF assms(2), of "leads w" old now] assms(1)
  obtain l' ls where s1: "saveLead now ?d (leads w) = Inr (l', ls)"
    and f1: "findLeadById (lead_id l) ls = Some l'"
    and e1: "l' = ?d \<or> l' = ?d\<lparr>updatedAt := now\<rparr>"
    by auto
  from saveCallLog_ok [OF assms(3), of now "callLogs w"] assms(4)
  obtain c' cs where s2: "saveCallLog now ?e (callLogs w) = Inr (c', cs)"
    and f2: "findCallLogById (log_id c) cs = Some c'"
    and e2: "c' = ?e \<or> c' = ?e\<lparr>log_updatedAt := now\<rparr>"
    by auto
  have "handleCallFailure now l (Some c) err q w =
          (q\<lparr>activeCalls := AList.delete (lead_id l) (activeCalls q)\<rparr>,
           w\<lparr>leads := ls, callLogs := cs\<rparr>)"
    by (simp add: handleCallFailure_def s1 s2)
  with f1 e1 f2 e2 show ?thesis by auto
qed

text \<open>
  C7. The dispatcher calls \<^verbatim>\<open>makeCall\<close> with a lead it has just read from the
  collection. When that lead satisfies the schema, the caller number is configured and
  \<^verbatim>\<open>initiateCall\<close> reports failure with the message \<open>err\<close>, then after
  \<^verbatim>\<open>makeCall\<close> the stored lead has status \<^verbatim>\<open>pending\<close>, no assigned agent, and the
  attempt count and history it had before; the call log created for the attempt has
  status \<^verbatim>\<open>failed\<close> and the error message \<open>err\<close>; the active calls hold no entry
  for the lead; and no call was placed.
\<close>

theorem placement_failure_reverts:
  assumes "findLeadById (lead_id l) (leads w) = Some l"
    and "validateLead l = None"
    and "fromNumber = Some f" and "f \<noteq> []"
    and "initiateCall gw (phone l) (user_phone sp) = Inl err"
  shows "\<exists>q' w' l' c'.
           makeCall now fromNumber gw l sp q w = (q', w') \<and>
           findLeadById (lead_id l) (leads w') = Some l' \<and>
           status l' = ''pending'' \<and> assignedTo l' = None \<and>
           callAttempts l' = callAttempts l \<and> callHistory l' = callHistory l \<and>
           findCallLogById (freshLogId (callLogs w)) (callLogs w') = Some c' \<and>
           log_lead c' = lead_id l \<and> log_status c' = ''failed'' \<and>
           errorMessage c' = Some err \<and>
           map_of (activeCalls q') (lead_id l) = None \<and>
           placedCalls w' = placedCalls w"
proof -
  let ?l0 = "l\<lparr>status := ''calling'', assignedTo := Some (user_id sp)\<rparr>"
  have v0: "validateLead ?l0 = None"
    using assms(2) by (simp add: validateLead_def leadStatusEnum_def split: if_splits)
  from saveLead_ok [OF v0, of "leads w" l now] assms(1)
  obtain l1 ls where s1: "saveLead now ?l0 (leads w) = Inr (l1, ls)"
    and f1: "findLeadById (lead_id l) ls = Some l1"
    and e1: "l1 = ?l0 \<or> l1 = ?l0\<lparr>updatedAt := now\<rparr>"
    by auto
  from e1 have k1: "lead_id l1 = lead_id l" "phone l1 = phone l"
    "callAttempts l1 = callAttempts l" "callHistory l1 = callHistory l"
    by auto
  from e1 assms(2) have v1: "validateLead (l1\<lparr>status := ''pending'', assignedTo := None\<rparr>) = None"
    by (auto simp: validateLead_def leadStatusEnum_def split: if_splits)
  from assms(2) have ph: "phone l \<noteq> []"
    by (simp add: validateLead_def split: if_splits)
  define c0 where "c0 =
     \<lparr>log_id = freshLogId (callLogs w), log_lead = lead_id l1,
      salesperson = Some (user_id sp), twilioCallSid = None,
      log_status = ''initiated'', log_from = fromNumber, log_to = phone l1,
      log_duration = 0, startTime = now, endTime = None, answerTime = None,
      log_notes = None, errorCode = None, errorMessage = None,
      log_createdAt = now, log_updatedAt = now\<rparr>"
  have vc: "validateCallLog c0 = None" and sc: "twilioCallSid c0 = None"
    and ic: "log_id c0 = freshLogId (callLogs w)"
    using assms(3,4) ph k1(2) by (simp_all add: c0_def validateCallLog_def callStatusEnum_def)
  from freshLogId_new [of "callLogs w"] ic
  have "findCallLogById (log_id c0) (callLogs w) = None" by simp
  then have "findCallLogById (log_id c0) (callLogs w @ [c0]) = Some c0"
    unfolding findCallLogById_def by (rule find_append_new) simp
  with vc sc \<open>findCallLogById (log_id c0) (callLogs w) = None\<close>
  have s2: "saveCallLog now c0 (callLogs w) = Inr (c0, callLogs w @ [c0])"
    by (simp add: saveCallLog_def sidTaken_def)
  let ?w2 = "w\<lparr>leads := ls, callLogs := callLogs w @ [c0]\<rparr>"
  have vf: "validateCallLog (c0\<lparr>log_status := ''failed'', errorMessage := Some err\<rparr>) = None"
    using vc by (simp add: validateCallLog_def callStatusEnum_def split: if_splits)
  have f1': "findLeadById (lead_id l1) (leads ?w2) = Some l1"
    using f1 k1(1) by simp
  from handleCallFailure_ok [OF f1' v1 vf sc, of now q]
  obtain w' l' c' where
    h: "handleCallFailure now l1 (Some c0) err q ?w2 =
          (q\<lparr>activeCalls := AList.delete (lead_id l1) (activeCalls q)\<rparr>, w')"
    and fl: "findLeadById (lead_id l1) (leads w') = Some l'"
    and el: "l' = l1\<lparr>status := ''pending'', assignedTo := None\<rparr> \<or>
             l' = l1\<lparr>status := ''pending'', assignedTo := None, updatedAt := now\<rparr>"
    and fc: "findCallLogById (log_id c0) (callLogs w') = Some c'"
    and ec: "c' = c0\<lparr>log_status := ''failed'', errorMessage := Some err\<rparr> \<or>
             c' = c0\<lparr>log_status := ''failed'', errorMessage := Some err, log_updatedAt := now\<rparr>"
    and pl: "placedCalls w' = placedCalls ?w2"
    by blast
  have i: "initiateCall gw (phone l1) (user_phone sp) = Inl err"
    using assms(5) k1(2) by simp
  have m: "makeCall now fromNumber gw l sp q w =
           (q\<lparr>activeCalls := AList.delete (lead_id l1) (activeCalls q)\<rparr>, w')"
    unfolding makeCall_def Let_def s1 by (simp add: c0_def [symmetric] s2 i h)
  from el k1 have "status l' = ''pending'' \<and> assignedTo l' = None \<and>
      callAttempts l' = callAttempts l \<and> callHistory l' = callHistory l"
    by auto
  moreover from ec have "log_lead c' = lead_id l \<and> log_status c' = ''failed'' \<and>
      errorMessage c' = Some err"
    by (auto simp: c0_def k1)
  moreover have "map_of (activeCalls (q\<lparr>activeCalls := AList.delete (lead_id l1) (activeCalls q)\<rparr>))
      (lead_id l) = None"
    by (simp add: k1 delete_conv)
  ultimately show ?thesis using m fl fc pl ic k1(1) by auto
qed

theorem placement_failure_witness:
  "findLeadById (lead_id (exampleLead 1 ''pending'' ''high'' 0 1)) (leads smallWorld) =
     Some (exampleLead 1 ''pending'' ''high'' 0 1) \<and>
   validateLead (exampleLead 1 ''pending'' ''high'' 0 1) = None \<and>
   initiateCall (Live (Inl ''rejected'')) (phone (exampleLead 1 ''pending'' ''high'' 0 1))
     (user_phone (exampleUser 7 0)) = Inl ''rejected'' \<and>
   (\<exists>q' w' l' c'.
      makeCall 10 (Some ''+15550100'') (Live (Inl ''rejected''))
        (exampleLead 1 ''pending'' ''high'' 0 1) (exampleUser 7 0)
        ((newCallQueue None)\<lparr>activeCalls := [exampleInfo 1]\<rparr>) smallWorld = (q', w') \<and>
      findLeadById 1 (leads w') = Some l' \<and> status l' = ''pending'' \<and>
      assignedTo l' = None \<and> callAttempts l' = 0 \<and>
      findCallLogById 1 (callLogs w') = Some c' \<and> log_status c' = ''failed'' \<and>
      errorMessage c' = Some ''rejected'' \<and>
      map_of (activeCalls q') 1 = None \<and> placedCalls w' = [])"
proof -
  let ?l = "exampleLead 1 ''pending'' ''high'' 0 1"
  have f: "findLeadById (lead_id ?l) (leads smallWorld) = Some ?l"
    by (simp add: findLeadById_def smallWorld_def initialWorld_def exampleLead_def)
  have v: "validateLead ?l = None"
    by (rule exampleLead_valid) (simp_all add: leadStatusEnum_def priorityEnum_def)
  have n: "Some ''+15550100'' = Some ''+15550100''" "''+15550100'' \<noteq> []"
    by simp_all
  have i: "initiateCall (Live (Inl ''rejected'')) (phone ?l) (user_phone (exampleUser 7 0)) =
           Inl ''rejected''"
    by (simp add: initiateCall_def exampleLead_def exampleUser_def)
  have k: "lead_id ?l = 1" "callAttempts ?l = 0" "freshLogId (callLogs smallWorld) = 1"
    "placedCalls smallWorld = []"
    by (simp_all add: exampleLead_def freshLogId_def smallWorld_def initialWorld_def)
  from placement_failure_reverts [OF f v n i, of 10 "(newCallQueue None)\<lparr>activeCalls := [exampleInfo 1]\<rparr>"]
  have "\<exists>q' w' l' c'.
      makeCall 10 (Some ''+15550100'') (Live (Inl ''rejected'')) ?l (exampleUser 7 0)
        ((newCallQueue None)\<lparr>activeCalls := [exampleInfo 1]\<rparr>) smallWorld = (q', w') \<and>
      findLeadById 1 (leads w') = Some l' \<and> status l' = ''pending'' \<and>
      assignedTo l' = None \<and> callAttempts l' = 0 \<and>
      findCallLogById 1 (callLogs w') = Some c' \<and> log_status c' = ''failed'' \<and>
      errorMessage c' = Some ''rejected'' \<and>
      map_of (activeCalls q') 1 = None \<and> placedCalls w' = []"
    unfolding k by blast
  with f v i show ?thesis by blast
qed

subsection \<open>Counting attempts on the webhook path\<close>

text \<open>
  C4. The claim: the attempt count grows by one for each provider-reported outcome among
  busy, no-answer and failed, the webhook path included. The webhook delivers the label
  \<^verbatim>\<open>no-answer\<close>, which \<^verbatim>\<open>updateCallStatus\<close> does not count (it compares with
  \<^verbatim>\<open>no_answer\<close>) and which the Lead schema rejects: on a lead being called for the
  first time the route answers 500, the call log becomes \<^verbatim>\<open>no-answer\<close> and the lead
  stays as it was, with attempt count 0. The same webhook with \<^verbatim>\<open>busy\<close> is answered
  200 and counts the attempt.
\<close>

theorem no_answer_webhook_is_not_counted:
  "fst (webhookStatus 100 ''CA1'' ''no-answer'' 0 callingWorld) = 500 \<and>
   map log_status (callLogs (snd (webhookStatus 100 ''CA1'' ''no-answer'' 0 callingWorld))) =
     [''no-answer''] \<and>
   leads (snd (webhookStatus 100 ''CA1'' ''no-answer'' 0 callingWorld)) = leads callingWorld \<and>
   map callAttempts (leads callingWorld) = [0] \<and>
   fst (webhookStatus 100 ''CA1'' ''busy'' 0 callingWorld) = 200 \<and>
   map callAttempts (leads (snd (webhookStatus 100 ''CA1'' ''busy'' 0 callingWorld))) = [1]"
  by (simp add: webhookStatus_def handleCallStatusUpdate_def mapTwilioStatus_def noData_def
        updateStatus_def updateStatus_doc_def applyAdditionalData_def saveCallLog_def
        validateCallLog_def callStatusEnum_def sidTaken_def findCallLogById_def
        findCallLogBySid_def updateLeadFromCall_def updateCallStatus_def
        updateCallStatus_doc_def saveLead_def validateLead_def leadStatusEnum_def
        priorityEnum_def phoneChar_def findLeadById_def callingWorld_def initialWorld_def
        exampleLead_def exampleLog_def exampleUser_def Let_def)

subsection \<open>Repeated outcomes\<close>











end
